theory Spec2Isabelle
  imports Main "HOL-Library.Multiset"
begin

section \<open>The parser elements of pyparsing used by \<open>lernd/parser.py\<close>\<close>

text \<open>
  \<open>parser.py\<close> builds its grammar from elements of the pyparsing library:
  \<open>Word\<close>, \<open>Suppress\<close>, \<open>+\<close> (\<open>And\<close>), \<open>|\<close> (\<open>MatchFirst\<close>),
  \<open>delimited_list\<close>, \<open>Group\<close>, \<open>OneOrMore\<close>, \<open>set_results_name\<close>, and runs it
  with \<open>parse_file(..., parse_all=True)\<close>. This section gives each of them as a
  function on the text that is left to read.

  A \<open>ParseResults\<close> holds the list of tokens of a match and the results names set
  inside it; a results name stands for the tokens of the expression that carries it.
  The tokens of a \<open>Group\<close> are themselves \<open>ParseResults\<close>, hence the type parameter.
\<close>

record 't ParseResults =
  toklist :: "'t list"
  tokdict :: "string \<Rightarrow> 't list option"

definition no_results :: "'t ParseResults" where
  "no_results = \<lparr>toklist = [], tokdict = Map.empty\<rparr>"

text \<open>\<open>tokens += tmptokens\<close>: the tokens are appended, a name of the right operand
  replaces the same name of the left one.\<close>

definition pr_add :: "'t ParseResults \<Rightarrow> 't ParseResults \<Rightarrow> 't ParseResults" where
  "pr_add a b = \<lparr>toklist = toklist a @ toklist b, tokdict = tokdict a ++ tokdict b\<rparr>"

text \<open>
  What trying an element at a position gives: a match (its results and the text
  after it), a \<open>ParseException\<close> (\<open>Fail\<close>, which \<open>MatchFirst\<close> and the repetitions
  catch), or no return at all (\<open>NoReturn\<close>: the loop of a repetition whose body
  matches without reading anything never ends).
\<close>

datatype 't outcome = Match "'t ParseResults" string | Fail | NoReturn

type_synonym 't ParserElement = "string \<Rightarrow> 't outcome"

text \<open>\<open>pp.alphas\<close>, \<open>pp.nums\<close> and the default whitespace characters of pyparsing
  (blank, newline, tab, carriage return). \<open>pp.alphas\<close> holds the letters of ASCII
  only: a character outside ASCII is in none of the three and ends every token.\<close>

definition alphas :: string where
  "alphas = ''ABCDEFGHIJKLMNOPQRSTUVWXYZabcdefghijklmnopqrstuvwxyz''"

definition nums :: string where
  "nums = ''0123456789''"

definition white_chars :: string where
  "white_chars = [CHR '' '', CHR 0x0A, CHR 0x09, CHR 0x0D]"

text \<open>Every element skips leading whitespace before it tries to match
  (\<open>preParse\<close>, called by \<open>_parse\<close>).\<close>

definition preParse :: "string \<Rightarrow> string" where
  "preParse instring = dropWhile (\<lambda>c. c \<in> set white_chars) instring"

definition parse_elem :: "'t ParserElement \<Rightarrow> string \<Rightarrow> 't outcome" where
  "parse_elem e instring = e (preParse instring)"

text \<open>\<open>Word(chars)\<close>: the longest non-empty run of characters of \<open>chars\<close>, as one token.\<close>

definition Word :: "string \<Rightarrow> string ParserElement" where
  "Word init_chars instring =
     (let w = takeWhile (\<lambda>c. c \<in> set init_chars) instring in
      if w = [] then Fail
      else Match \<lparr>toklist = [w], tokdict = Map.empty\<rparr>
             (dropWhile (\<lambda>c. c \<in> set init_chars) instring))"

text \<open>\<open>Suppress(s)\<close>: the literal \<open>s\<close>, matched and left out of the tokens.\<close>

definition Suppress :: "string \<Rightarrow> 't ParserElement" where
  "Suppress match_string instring =
     (if take (length match_string) instring = match_string
      then Match no_results (drop (length match_string) instring)
      else Fail)"

text \<open>\<open>a + b\<close>: \<open>a\<close>, then \<open>b\<close> on the rest; the results are added.\<close>

definition And :: "'t ParserElement \<Rightarrow> 't ParserElement \<Rightarrow> 't ParserElement" where
  "And a b instring =
     (case parse_elem a instring of
        Fail \<Rightarrow> Fail
      | NoReturn \<Rightarrow> NoReturn
      | Match ta r \<Rightarrow>
          (case parse_elem b r of
             Fail \<Rightarrow> Fail
           | NoReturn \<Rightarrow> NoReturn
           | Match tb r' \<Rightarrow> Match (pr_add ta tb) r'))"

text \<open>\<open>a | b\<close>: \<open>a\<close>, and \<open>b\<close> at the same position when \<open>a\<close> fails.\<close>

definition MatchFirst :: "'t ParserElement \<Rightarrow> 't ParserElement \<Rightarrow> 't ParserElement" where
  "MatchFirst a b instring =
     (case parse_elem a instring of
        Fail \<Rightarrow> parse_elem b instring
      | NoReturn \<Rightarrow> NoReturn
      | Match ta r \<Rightarrow> Match ta r)"

text \<open>
  The loop of \<open>OneOrMore\<close> and \<open>ZeroOrMore\<close>: the body is tried again and again,
  its tokens are accumulated, and the first failure ends the loop at the position
  reached before it. The loop has no other exit: a body that matches without
  reading makes it run forever, which is the branch \<open>NoReturn\<close>.
\<close>

function multiple_match ::
  "'t ParserElement \<Rightarrow> 't ParseResults \<Rightarrow> string \<Rightarrow> 't outcome" where
  "multiple_match e tokens instring =
     (case parse_elem e instring of
        Fail \<Rightarrow> Match tokens instring
      | NoReturn \<Rightarrow> NoReturn
      | Match tmptokens r \<Rightarrow>
          if length r < length instring
          then multiple_match e (pr_add tokens tmptokens) r
          else NoReturn)"
  by pat_completeness auto
termination
  by (relation "measure (\<lambda>(e, tokens, instring). length instring)") auto

declare multiple_match.simps [simp del]

definition OneOrMore :: "'t ParserElement \<Rightarrow> 't ParserElement" where
  "OneOrMore e instring =
     (case parse_elem e instring of
        Fail \<Rightarrow> Fail
      | NoReturn \<Rightarrow> NoReturn
      | Match tokens r \<Rightarrow> multiple_match e tokens r)"

definition ZeroOrMore :: "'t ParserElement \<Rightarrow> 't ParserElement" where
  "ZeroOrMore e instring =
     (case OneOrMore e instring of
        Fail \<Rightarrow> Match no_results instring
      | NoReturn \<Rightarrow> NoReturn
      | Match tokens r \<Rightarrow> Match tokens r)"

text \<open>\<open>delimited_list(expr, delim)\<close> is \<open>expr + ZeroOrMore(Suppress(delim) + expr)\<close>.\<close>

definition delimited_list :: "'t ParserElement \<Rightarrow> string \<Rightarrow> 't ParserElement" where
  "delimited_list expr delim = And expr (ZeroOrMore (And (Suppress delim) expr))"

text \<open>\<open>Group(expr)\<close>: the results of \<open>expr\<close>, names included, become one token.\<close>

definition Group :: "'t ParserElement \<Rightarrow> 't ParseResults ParserElement" where
  "Group expr instring =
     (case parse_elem expr instring of
        Fail \<Rightarrow> Fail
      | NoReturn \<Rightarrow> NoReturn
      | Match tokens r \<Rightarrow> Match \<lparr>toklist = [tokens], tokdict = Map.empty\<rparr> r)"

text \<open>\<open>expr.set_results_name(name)\<close>: a copy of \<open>expr\<close> whose match is also
  reachable under \<open>name\<close>; names set inside \<open>expr\<close> stay.\<close>

definition set_results_name :: "'t ParserElement \<Rightarrow> string \<Rightarrow> 't ParserElement" where
  "set_results_name expr name instring =
     (case expr instring of
        Fail \<Rightarrow> Fail
      | NoReturn \<Rightarrow> NoReturn
      | Match tokens r \<Rightarrow> Match (tokens\<lparr>tokdict := (tokdict tokens)(name \<mapsto> toklist tokens)\<rparr>) r)"

text \<open>
  Reading a results name as an attribute. A name set on a single-token expression
  (a \<open>Word\<close>) gives that token, a string; a name set on a sequence (\<open>And\<close>) gives the
  list of its tokens. A name that is not set gives the empty string, which has
  length 0 and no elements.
\<close>

definition attr_str :: "string ParseResults \<Rightarrow> string \<Rightarrow> string" where
  "attr_str res name = (case tokdict res name of Some (t # ts) \<Rightarrow> t | _ \<Rightarrow> [])"

definition attr_list :: "'t ParseResults \<Rightarrow> string \<Rightarrow> 't list" where
  "attr_list res name = (case tokdict res name of Some ts \<Rightarrow> ts | None \<Rightarrow> [])"

text \<open>The exceptions that can leave \<open>parse_file\<close> and \<open>setup_custom\<close>: of the parser,
  of \<open>open\<close>, and of \<open>positive_exs[0]\<close>.\<close>

datatype error = ParseException | FileNotFoundError | IndexError

text \<open>A call either does not return (\<open>None\<close>), raises, or returns a value.\<close>

type_synonym 'a result = "(error + 'a) option"

text \<open>
  \<open>parse_string(instring, parse_all)\<close>: the element is tried at position 0; with
  \<open>parse_all\<close>, whitespace is skipped after the match and the end of the text must
  follow. (\<open>parse_string\<close> first expands tabs to blanks; both are whitespace, which
  no token contains.)
\<close>

definition parse_string :: "'t ParserElement \<Rightarrow> string \<Rightarrow> bool \<Rightarrow> 't ParseResults result" where
  "parse_string e instring parse_all =
     (case parse_elem e instring of
        NoReturn \<Rightarrow> None
      | Fail \<Rightarrow> Some (Inl ParseException)
      | Match tokens r \<Rightarrow>
          if parse_all \<and> preParse r \<noteq> [] then Some (Inl ParseException)
          else Some (Inr tokens))"

section \<open>\<open>lernd/parser.py\<close>\<close>

text \<open>\<open>create_parser\<close>, one definition for each of its local names
  (\<open>predicate\<close> and \<open>fact\<close> are \<open>predicate_expr\<close> and \<open>fact_expr\<close> here).\<close>

definition predicate_expr :: "string ParserElement" where
  "predicate_expr = set_results_name (Word alphas) ''id''"

definition number :: "string ParserElement" where
  "number = Word (nums @ ''.'')"

definition variable :: "string ParserElement" where
  "variable = Word alphas"

definition argument :: "string ParserElement" where
  "argument = MatchFirst number variable"

definition arguments :: "string ParserElement" where
  "arguments =
     set_results_name
       (And (And (Suppress ''('') (delimited_list argument '','')) (Suppress '')''))
       ''args''"

definition fact_expr :: "string ParserElement" where
  "fact_expr = And predicate_expr arguments"

definition sentence :: "string ParserElement" where
  "sentence = And fact_expr (Suppress ''.'')"

definition create_parser :: "string ParseResults ParserElement" where
  "create_parser = OneOrMore (Group sentence)"

text \<open>The module-level parser.\<close>

definition prolog :: "string ParseResults ParserElement" where
  "prolog = create_parser"

text \<open>
  Files: a path is the list of its components, the file system gives the text of
  the files that exist. \<open>parse_file\<close> opens the file, which raises
  \<open>FileNotFoundError\<close> for a file that does not exist, reads all of it and parses the
  text with \<open>parse_all=True\<close>. (A file that exists and cannot be read or decoded is
  not part of this model.)
\<close>

type_synonym path = "string list"

type_synonym files = "path \<Rightarrow> string option"

definition parse_file :: "files \<Rightarrow> path \<Rightarrow> string ParseResults ParseResults result" where
  "parse_file fs filename =
     (case fs filename of
        None \<Rightarrow> Some (Inl FileNotFoundError)
      | Some file_contents \<Rightarrow> parse_string prolog file_contents True)"

text \<open>\<open>str(n)\<close> for a length \<open>n\<close>: the decimal digits, most significant first.\<close>

function str_nat :: "nat \<Rightarrow> string" where
  "str_nat n = (if n < 10 then [nums ! n] else str_nat (n div 10) @ [nums ! (n mod 10)])"
  by pat_completeness auto
termination
  by (relation "measure (\<lambda>n. n)") auto

declare str_nat.simps [simp del]

text \<open>\<open>sep.join(xs)\<close>.\<close>

fun join :: "string \<Rightarrow> string list \<Rightarrow> string" where
  "join sep [] = []"
| "join sep [x] = x"
| "join sep (x # y # ys) = x @ sep @ join sep (y # ys)"

text \<open>A parsed fact is one group of the results of \<open>prolog\<close>: its tokens, the name
  \<open>id\<close> for the predicate word and the name \<open>args\<close> for the argument tokens.\<close>

type_synonym Predicate = "string ParseResults"

definition to_pred_str :: "Predicate \<Rightarrow> string" where
  "to_pred_str predicate =
     attr_str predicate ''id'' @ ''/'' @ str_nat (length (attr_list predicate ''args''))"

definition to_pred :: "Predicate \<Rightarrow> string" where
  "to_pred predicate =
     attr_str predicate ''id'' @ ''('' @ join '','' (attr_list predicate ''args'') @ '')''"

definition get_pred_str_list :: "Predicate ParseResults \<Rightarrow> string list" where
  "get_pred_str_list results = map to_pred_str (toklist results)"

text \<open>
  \<open>list(set(res))\<close> gives the elements of \<open>res\<close> once each, in the iteration order of
  the set, which Python leaves open (it follows the hashes of the strings). The
  order is therefore a parameter \<open>list_set\<close> of every function that builds such a
  list; what is known of it is \<open>distinct (list_set xs)\<close> and
  \<open>set (list_set xs) = set xs\<close>, and the theorems that need this assume it.
\<close>

type_synonym set_order = "string list \<Rightarrow> string list"

definition get_all_unique_args :: "set_order \<Rightarrow> Predicate ParseResults \<Rightarrow> string list" where
  "get_all_unique_args list_set results =
     list_set (foldl (\<lambda>res predicate. res @ attr_list predicate ''args'') [] (toklist results))"

section \<open>\<open>lernd/experiments.py\<close>: \<open>setup_custom\<close>\<close>

text \<open>Modelled from the spec: the types \<open>Predicate\<close> (of \<open>lernd.lernd_types\<close>, the
  spec's Signature), \<open>GroundAtom\<close> and \<open>Constant\<close>, which are not among the files
  verified here. The spec gives a signature as the string \<open>name/arity\<close>, a ground
  atom as the string \<open>name(arg1,arg2,...)\<close> and a constant as its token.\<close>

type_synonym Signature = string

type_synonym GroundAtom = string

type_synonym Constant = string

text \<open>Modelled from the spec: \<open>str2pred\<close> of \<open>lernd.util\<close>, the signature written
  as the string \<open>name/arity\<close>.\<close>

definition str2pred :: "string \<Rightarrow> Signature" where
  "str2pred s = s"

text \<open>Modelled from the spec: \<open>str2ground_atom\<close> of \<open>lernd.util\<close>, the ground atom
  written as the string \<open>name(arg1,arg2,...)\<close>.\<close>

definition str2ground_atom :: "string \<Rightarrow> GroundAtom" where
  "str2ground_atom s = s"

text \<open>Modelled from the spec: the constructor \<open>Constant\<close> of \<open>lernd.lernd_types\<close>,
  a constant being its token.\<close>

definition Constant :: "string \<Rightarrow> Constant" where
  "Constant s = s"

text \<open>Modelled from the spec: \<open>RuleTemplate\<close> of \<open>lernd.lernd_types\<close>, a slot number
  and the flag the spec calls \<open>existential\<close>.\<close>

datatype RuleTemplate = RuleTemplate nat bool

text \<open>Modelled from the spec: the classes \<open>LanguageModel\<close>, \<open>ProgramTemplate\<close> and
  \<open>ILP\<close> of \<open>lernd.classes\<close>, as the plain data their constructors receive, in the
  order of the constructor's arguments. \<open>rules\<close> is a dictionary.\<close>

record LanguageModel =
  target :: Signature
  preds_ext :: "Signature list"
  constants :: "Constant list"

record ProgramTemplate =
  preds_aux :: "Signature list"
  rules :: "Signature \<Rightarrow> (RuleTemplate \<times> RuleTemplate option) option"
  forward_chaining_steps :: nat

record ILP =
  problem_name :: string
  language_model :: LanguageModel
  background_axioms :: "GroundAtom list"
  positive_examples :: "GroundAtom list"
  negative_examples :: "GroundAtom list"

text \<open>A statement that raises ends the function with that exception; one that does
  not return keeps the function from returning.\<close>

definition bind_result :: "'a result \<Rightarrow> ('a \<Rightarrow> 'b result) \<Rightarrow> 'b result" where
  "bind_result r f =
     (case r of None \<Rightarrow> None | Some (Inl e) \<Rightarrow> Some (Inl e) | Some (Inr v) \<Rightarrow> f v)"

text \<open>\<open>results[0]\<close>.\<close>

definition first_result :: "'t ParseResults \<Rightarrow> 't result" where
  "first_result results =
     (case toklist results of [] \<Rightarrow> Some (Inl IndexError) | t # ts \<Rightarrow> Some (Inr t))"

text \<open>\<open>example_path.name\<close>, the last component of the path.\<close>

definition path_name :: "path \<Rightarrow> string" where
  "path_name p = (if p = [] then [] else last p)"

definition setup_custom :: "set_order \<Rightarrow> files \<Rightarrow> path \<Rightarrow> (ILP \<times> ProgramTemplate) result" where
  "setup_custom list_set fs example_path =
     (let name = path_name example_path;
          bk_file = example_path @ [''bk.pl''];
          positive_exs_file = example_path @ [''pos.pl''];
          negative_exs_file = example_path @ [''neg.pl'']
      in
      bind_result (parse_file fs bk_file) (\<lambda>bk.
      bind_result (parse_file fs positive_exs_file) (\<lambda>positive_exs.
      bind_result (parse_file fs negative_exs_file) (\<lambda>negative_exs.
      bind_result (first_result positive_exs) (\<lambda>positive_exs_0.
        let target_pred = str2pred (to_pred_str positive_exs_0);
            preds_ext = map str2pred (get_pred_str_list bk);
            constants = map Constant (list_set
              (get_all_unique_args list_set bk @ get_all_unique_args list_set positive_exs
                 @ get_all_unique_args list_set negative_exs));
            language_model =
              \<lparr>target = target_pred, preds_ext = preds_ext, constants = constants\<rparr>;
            aux_pred = str2pred ''pred/2'';
            aux_preds = [aux_pred];
            rules = [target_pred \<mapsto> (RuleTemplate 0 False, Some (RuleTemplate 1 True)),
                     aux_pred \<mapsto> (RuleTemplate 1 False, None)];
            forward_chaining_steps = 6;
            program_template =
              \<lparr>preds_aux = aux_preds, rules = rules,
               forward_chaining_steps = forward_chaining_steps\<rparr>;
            background_axioms = map (\<lambda>predicate. str2ground_atom (to_pred predicate)) (toklist bk);
            positive_examples =
              map (\<lambda>predicate. str2ground_atom (to_pred predicate)) (toklist positive_exs);
            negative_examples =
              map (\<lambda>predicate. str2ground_atom (to_pred predicate)) (toklist negative_exs);
            ilp_problem =
              \<lparr>problem_name = name, language_model = language_model,
               background_axioms = background_axioms, positive_examples = positive_examples,
               negative_examples = negative_examples\<rparr>
        in Some (Inr (ilp_problem, program_template)))))))"

section \<open>What the claims speak of\<close>

text \<open>A text with its whitespace removed (the spec's \<open>normalize_whitespace\<close>).\<close>

definition strip_white :: "string \<Rightarrow> string" where
  "strip_white s = filter (\<lambda>c. c \<notin> set white_chars) s"

text \<open>The tokens that \<open>number\<close>, \<open>variable\<close> and \<open>argument\<close> can give: a non-empty
  run of digits and points, or a non-empty run of letters.\<close>

definition number_token :: "string \<Rightarrow> bool" where
  "number_token a \<longleftrightarrow> a \<noteq> [] \<and> list_all (\<lambda>c. c \<in> set (nums @ ''.'')) a"

definition variable_token :: "string \<Rightarrow> bool" where
  "variable_token a \<longleftrightarrow> a \<noteq> [] \<and> list_all (\<lambda>c. c \<in> set alphas) a"

definition argument_token :: "string \<Rightarrow> bool" where
  "argument_token a \<longleftrightarrow> number_token a \<or> variable_token a"

text \<open>The spec's numeric literal: digits and points only, at least one digit, at
  most one point; and the spec's argument token, such a literal or a run of letters.\<close>

definition spec_number :: "string \<Rightarrow> bool" where
  "spec_number a \<longleftrightarrow>
     list_all (\<lambda>c. c \<in> set (nums @ ''.'')) a \<and> list_ex (\<lambda>c. c \<in> set nums) a \<and>
     length (filter (\<lambda>c. c = CHR ''.'') a) \<le> 1"

definition spec_argument :: "string \<Rightarrow> bool" where
  "spec_argument a \<longleftrightarrow> spec_number a \<or> variable_token a"

text \<open>What every group of a parse holds: the predicate word under \<open>id\<close>, the
  argument tokens under \<open>args\<close>, and these as its tokens, in this order.\<close>

definition fact_inv :: "Predicate \<Rightarrow> bool" where
  "fact_inv p \<longleftrightarrow>
     tokdict p ''id'' = Some [attr_str p ''id''] \<and>
     tokdict p ''args'' = Some (attr_list p ''args'') \<and>
     toklist p = attr_str p ''id'' # attr_list p ''args'' \<and>
     variable_token (attr_str p ''id'') \<and>
     attr_list p ''args'' \<noteq> [] \<and>
     list_all argument_token (attr_list p ''args'')"

text \<open>The name and the arguments of each fact of a parse, and a function applied to
  the value a call returns.\<close>

definition facts_of :: "Predicate ParseResults \<Rightarrow> (string \<times> string list) list" where
  "facts_of results = map (\<lambda>p. (attr_str p ''id'', attr_list p ''args'')) (toklist results)"

definition map_result :: "('a \<Rightarrow> 'b) \<Rightarrow> 'a result \<Rightarrow> 'b result" where
  "map_result f r = bind_result r (\<lambda>v. Some (Inr (f v)))"

text \<open>The number that a string of decimal digits denotes.\<close>

definition decimal_value :: "string \<Rightarrow> nat" where
  "decimal_value d = foldl (\<lambda>v c. 10 * v + (of_char c - 48)) 0 d"

text \<open>
  A syntactically valid fact of the spec's grammar, as a text:
  \<open>NAME '(' arg (',' arg)* ')' '.'\<close> with any whitespace between the tokens. \<open>white\<close>
  holds of a run of whitespace; the arguments after the first come with the
  whitespace before their comma and the whitespace after it.
\<close>

definition white :: "string \<Rightarrow> bool" where
  "white w \<longleftrightarrow> list_all (\<lambda>c. c \<in> set white_chars) w"

fun more_args :: "(string \<times> string \<times> string) list \<Rightarrow> string" where
  "more_args [] = []"
| "more_args ((w1, w2, a) # rest) = w1 @ '','' @ w2 @ a @ more_args rest"

definition sentence_text ::
  "string \<Rightarrow> string \<Rightarrow> string \<Rightarrow> string \<Rightarrow> (string \<times> string \<times> string) list \<Rightarrow> string \<Rightarrow> string
     \<Rightarrow> string" where
  "sentence_text name w1 w2 arg rest w3 w4 =
     name @ w1 @ ''('' @ w2 @ arg @ more_args rest @ w3 @ '')'' @ w4 @ ''.''"

definition spaced_arg :: "string \<times> string \<times> string \<Rightarrow> bool" where
  "spaced_arg x \<longleftrightarrow> (case x of (w1, w2, a) \<Rightarrow> white w1 \<and> white w2 \<and> argument_token a)"

text \<open>A text at whose start no token can go on: it is empty or starts with a
  character that is neither a letter, nor a digit, nor a point.\<close>

definition ends_token :: "string \<Rightarrow> bool" where
  "ends_token x \<longleftrightarrow> x = [] \<or> (hd x \<notin> set alphas \<and> hd x \<notin> set (nums @ ''.''))"

text \<open>The three files of a problem directory.\<close>

definition problem_files :: "path \<Rightarrow> string \<Rightarrow> string \<Rightarrow> string \<Rightarrow> files" where
  "problem_files dir bk pos neg =
     [dir @ [''bk.pl''] \<mapsto> bk, dir @ [''pos.pl''] \<mapsto> pos, dir @ [''neg.pl''] \<mapsto> neg]"

text \<open>Texts and files that the examples below parse.\<close>

definition succ_text :: string where
  "succ_text = ''succ(0,1).'' @ [CHR 0x0A] @ ''succ(1,2).''"

definition spaced_track_text :: string where
  "spaced_track_text = '' track (a, 2.0 ,'' @ [CHR 0x0A] @ ''bc ).'' @ [CHR 0x0A]"

definition dots_files :: files where
  "dots_files = [[''bk.pl''] \<mapsto> ''f(.., 1.2.3).'']"

definition even_files :: files where
  "even_files =
     problem_files [''even''] (''zero(0).'' @ [CHR 0x0A] @ ''succ(0,1).'')
       (''even(0).'' @ [CHR 0x0A] @ ''even(2).'') ''even(1).''"

definition zero_succ_files :: files where
  "zero_succ_files =
     problem_files [''even'']
       (''zero(0).'' @ [CHR 0x0A] @ ''succ(0,1).'' @ [CHR 0x0A] @ ''succ(1,2).'' @ [CHR 0x0A]
          @ ''succ(2,3).'')
       ''even(0).'' ''even(1).''"


definition pred_files :: files where
  "pred_files = problem_files [''pred''] ''zero(0).'' ''pred(a,b).'' ''pred(b,a).''"

definition succ_facts :: "Predicate ParseResults" where
  "succ_facts =
     \<lparr>toklist =
        [\<lparr>toklist = [''succ'', ''0'', ''1''],
          tokdict = [''id'' \<mapsto> [''succ''], ''args'' \<mapsto> [''0'', ''1'']]\<rparr>,
         \<lparr>toklist = [''succ'', ''1'', ''2''],
          tokdict = [''id'' \<mapsto> [''succ''], ''args'' \<mapsto> [''1'', ''2'']]\<rparr>],
      tokdict = Map.empty\<rparr>"

section \<open>What a match of each expression of the grammar reads and returns\<close>

lemma preParse_length: "length (preParse s) \<le> length s"
  by (simp add: preParse_def length_dropWhile_le)

lemma strip_white_preParse: "strip_white (preParse s) = strip_white s"
  unfolding strip_white_def preParse_def by (induction s) auto

lemma strip_white_append: "strip_white (a @ b) = strip_white a @ strip_white b"
  by (simp add: strip_white_def)

lemma strip_white_id: "set w \<inter> set white_chars = {} \<Longrightarrow> strip_white w = w"
  unfolding strip_white_def by (induction w) auto

lemma strip_white_Nil_iff: "strip_white s = [] \<longleftrightarrow> preParse s = []"
  unfolding strip_white_def preParse_def by (induction s) auto

lemma Word_Match:
  assumes "parse_elem (Word cs) s = Match t r"
  shows "\<exists>w. t = \<lparr>toklist = [w], tokdict = Map.empty\<rparr> \<and> w \<noteq> [] \<and> set w \<subseteq> set cs
             \<and> preParse s = w @ r"
proof -
  let ?w = "takeWhile (\<lambda>c. c \<in> set cs) (preParse s)"
  from assms have w: "?w \<noteq> []" and t: "t = \<lparr>toklist = [?w], tokdict = Map.empty\<rparr>"
    and r: "r = dropWhile (\<lambda>c. c \<in> set cs) (preParse s)"
    by (auto simp: parse_elem_def Word_def Let_def split: if_splits)
  have "set ?w \<subseteq> set cs" by (auto dest: set_takeWhileD)
  moreover have "preParse s = ?w @ r" by (simp add: r)
  ultimately show ?thesis using w t by blast
qed

lemma Word_returns: "parse_elem (Word cs) s \<noteq> NoReturn"
  by (simp add: parse_elem_def Word_def Let_def)

lemma Suppress_Match:
  assumes "parse_elem (Suppress lit) s = Match t r"
  shows "t = no_results \<and> preParse s = lit @ r"
proof -
  from assms have tk: "take (length lit) (preParse s) = lit" and t: "t = no_results"
    and r: "r = drop (length lit) (preParse s)"
    by (auto simp: parse_elem_def Suppress_def split: if_splits)
  have "preParse s = take (length lit) (preParse s) @ drop (length lit) (preParse s)"
    by simp
  then have "preParse s = lit @ r" using tk r by simp
  with t show ?thesis by simp
qed

lemma Suppress_returns: "parse_elem (Suppress lit) s \<noteq> NoReturn"
  by (simp add: parse_elem_def Suppress_def)

lemma multiple_match_Match:
  assumes "\<And>s t r. parse_elem e s = Match t r \<Longrightarrow>
             tokdict t = Map.empty \<and> list_all P (toklist t)
             \<and> strip_white s = concat (map txt (toklist t)) @ strip_white r"
    and "multiple_match e acc s = Match t r"
  shows "\<exists>xs. toklist t = toklist acc @ xs \<and> tokdict t = tokdict acc \<and> list_all P xs
            \<and> strip_white s = concat (map txt xs) @ strip_white r \<and> length r \<le> length s"
  using assms
proof (induction e acc s arbitrary: t r rule: multiple_match.induct)
  case (1 e tokens instring)
  note step = "1.prems"(1)
  show ?case
  proof (cases "parse_elem e instring")
    case Fail
    with "1.prems"(2) have "t = tokens" "r = instring"
      by (simp_all add: multiple_match.simps[of e tokens instring])
    then show ?thesis by simp
  next
    case NoReturn
    with "1.prems"(2) show ?thesis by (simp add: multiple_match.simps[of e tokens instring])
  next
    case (Match tm r1)
    with "1.prems"(2) have lt: "length r1 < length instring"
      and rec: "multiple_match e (pr_add tokens tm) r1 = Match t r"
      by (simp_all add: multiple_match.simps[of e tokens instring] split: if_splits)
    from "1.IH"[OF Match lt step rec] obtain xs where
      xs: "toklist t = toklist (pr_add tokens tm) @ xs" "tokdict t = tokdict (pr_add tokens tm)"
          "list_all P xs" "strip_white r1 = concat (map txt xs) @ strip_white r"
          "length r \<le> length r1"
      by blast
    from step[OF Match] have tm: "tokdict tm = Map.empty" "list_all P (toklist tm)"
      "strip_white instring = concat (map txt (toklist tm)) @ strip_white r1" by simp_all
    have "length r \<le> length instring" using lt xs(5) by simp
    then show ?thesis
      by (intro exI[of _ "toklist tm @ xs"]) (simp add: xs tm pr_add_def)
  qed
qed

lemma multiple_match_returns:
  assumes "\<And>s. parse_elem e s \<noteq> NoReturn"
    and "\<And>s t r. parse_elem e s = Match t r \<Longrightarrow> length r < length s"
  shows "multiple_match e acc s \<noteq> NoReturn"
  using assms
proof (induction e acc s rule: multiple_match.induct)
  case (1 e tokens instring)
  show ?case
  proof (cases "parse_elem e instring")
    case (Match tm r1)
    then have lt: "length r1 < length instring" by (rule "1.prems"(2))
    from "1.IH"[OF Match lt "1.prems"] show ?thesis
      using Match lt by (simp add: multiple_match.simps[of e tokens instring])
  qed (use "1.prems"(1) in \<open>simp_all add: multiple_match.simps[of e tokens instring]\<close>)
qed

lemma parse_elem_preParse: "parse_elem e (preParse s) = parse_elem e s"
  by (simp add: parse_elem_def preParse_def)

lemma parse_elem_And:
  "parse_elem (And a b) s =
     (case parse_elem a s of Fail \<Rightarrow> Fail | NoReturn \<Rightarrow> NoReturn
      | Match ta r \<Rightarrow> (case parse_elem b r of Fail \<Rightarrow> Fail | NoReturn \<Rightarrow> NoReturn
                        | Match tb r' \<Rightarrow> Match (pr_add ta tb) r'))"
  by (simp add: parse_elem_def[of "And a b"] And_def parse_elem_preParse
      split: outcome.splits)

lemma parse_elem_MatchFirst:
  "parse_elem (MatchFirst a b) s =
     (case parse_elem a s of Fail \<Rightarrow> parse_elem b s | NoReturn \<Rightarrow> NoReturn
      | Match ta r \<Rightarrow> Match ta r)"
  by (simp add: parse_elem_def[of "MatchFirst a b"] MatchFirst_def parse_elem_preParse
      split: outcome.splits)

lemma parse_elem_OneOrMore:
  "parse_elem (OneOrMore e) s =
     (case parse_elem e s of Fail \<Rightarrow> Fail | NoReturn \<Rightarrow> NoReturn
      | Match tokens r \<Rightarrow> multiple_match e tokens r)"
  by (simp add: parse_elem_def[of "OneOrMore e"] OneOrMore_def parse_elem_preParse)

lemma multiple_match_not_Fail: "multiple_match e acc s \<noteq> Fail"
proof (induction e acc s rule: multiple_match.induct)
  case (1 e tokens instring)
  then show ?case
    by (cases "parse_elem e instring") (auto simp: multiple_match.simps[of e tokens instring])
qed

lemma parse_elem_ZeroOrMore:
  "parse_elem (ZeroOrMore e) s =
     (case parse_elem e s of Fail \<Rightarrow> Match no_results (preParse s) | NoReturn \<Rightarrow> NoReturn
      | Match tokens r \<Rightarrow> multiple_match e tokens r)"
proof (cases "parse_elem e s")
  case (Match tokens r)
  then show ?thesis
    using multiple_match_not_Fail[of e tokens r]
    by (cases "multiple_match e tokens r")
       (simp_all add: parse_elem_def[of "ZeroOrMore e"] ZeroOrMore_def OneOrMore_def
          parse_elem_preParse)
qed (simp_all add: parse_elem_def[of "ZeroOrMore e"] ZeroOrMore_def OneOrMore_def
       parse_elem_preParse)

lemma parse_elem_Group:
  "parse_elem (Group e) s =
     (case parse_elem e s of Fail \<Rightarrow> Fail | NoReturn \<Rightarrow> NoReturn
      | Match tokens r \<Rightarrow> Match \<lparr>toklist = [tokens], tokdict = Map.empty\<rparr> r)"
  by (simp add: parse_elem_def[of "Group e"] Group_def parse_elem_preParse)

lemma parse_elem_set_results_name:
  "parse_elem (set_results_name e name) s =
     (case parse_elem e s of Fail \<Rightarrow> Fail | NoReturn \<Rightarrow> NoReturn
      | Match tokens r \<Rightarrow>
          Match (tokens\<lparr>tokdict := (tokdict tokens)(name \<mapsto> toklist tokens)\<rparr>) r)"
  by (simp add: parse_elem_def set_results_name_def)

lemma read_text:
  assumes "preParse s = w @ r" and "set w \<inter> set white_chars = {}"
  shows "strip_white s = w @ strip_white r"
proof -
  have "strip_white s = strip_white (w @ r)"
    using assms(1) strip_white_preParse[of s] by simp
  then show ?thesis by (simp add: strip_white_append strip_white_id[OF assms(2)])
qed

lemma read_shorter:
  assumes "preParse s = w @ r" and "w \<noteq> []"
  shows "length r < length s"
proof -
  have "length (w @ r) \<le> length s" using preParse_length[of s] assms(1) by simp
  then show ?thesis using assms(2) by (cases w) auto
qed

lemma read_le:
  assumes "preParse s = w @ r"
  shows "length r \<le> length s"
  using preParse_length[of s] assms by simp

lemma alphas_not_white: "set w \<subseteq> set alphas \<Longrightarrow> set w \<inter> set white_chars = {}"
  by (auto simp: alphas_def white_chars_def)

lemma nums_not_white: "set w \<subseteq> set (nums @ ''.'') \<Longrightarrow> set w \<inter> set white_chars = {}"
  by (auto simp: nums_def white_chars_def)

lemma argument_token_not_white: "argument_token w \<Longrightarrow> set w \<inter> set white_chars = {}"
  unfolding argument_token_def number_token_def variable_token_def list_all_iff
  using alphas_not_white[of w] nums_not_white[of w] by blast

lemma argument_Match:
  assumes "parse_elem argument s = Match t r"
  shows "\<exists>w. toklist t = [w] \<and> tokdict t = Map.empty \<and> argument_token w
             \<and> preParse s = w @ r"
proof (cases "parse_elem number s")
  case (Match ta ra)
  with assms have "parse_elem (Word (nums @ ''.'')) s = Match t r"
    by (simp add: argument_def parse_elem_MatchFirst number_def)
  from Word_Match[OF this] show ?thesis
    by (auto simp: argument_token_def number_token_def list_all_iff)
next
  case Fail
  with assms have "parse_elem (Word alphas) s = Match t r"
    by (simp add: argument_def parse_elem_MatchFirst variable_def)
  from Word_Match[OF this] show ?thesis
    by (auto simp: argument_token_def variable_token_def list_all_iff)
next
  case NoReturn
  with assms show ?thesis by (simp add: argument_def parse_elem_MatchFirst)
qed

lemma argument_returns: "parse_elem argument s \<noteq> NoReturn"
  by (simp add: argument_def parse_elem_MatchFirst number_def variable_def Word_returns
      split: outcome.splits)

lemma comma_argument_Match:
  assumes "parse_elem (And (Suppress '','') argument) s = Match t r"
  shows "tokdict t = Map.empty \<and> list_all argument_token (toklist t)
         \<and> strip_white s = concat (map (\<lambda>w. '','' @ w) (toklist t)) @ strip_white r"
proof -
  from assms obtain t1 :: "string ParseResults" and r1 t2 where
    c: "parse_elem (Suppress '','') s = Match t1 r1" and a: "parse_elem argument r1 = Match t2 r"
    and t: "t = pr_add t1 t2"
    by (auto simp: parse_elem_And split: outcome.splits)
  from Suppress_Match[OF c] have t1: "t1 = no_results" and s1: "preParse s = '','' @ r1"
    by simp_all
  from argument_Match[OF a] obtain w where
    w: "toklist t2 = [w]" "tokdict t2 = Map.empty" "argument_token w" "preParse r1 = w @ r"
    by blast
  have "strip_white s = '','' @ strip_white r1"
    by (rule read_text[OF s1]) (simp add: white_chars_def)
  moreover have "strip_white r1 = w @ strip_white r"
    by (rule read_text[OF w(4) argument_token_not_white[OF w(3)]])
  ultimately show ?thesis using t t1 w by (simp add: pr_add_def no_results_def)
qed

lemma comma_argument_shorter:
  assumes "parse_elem (And (Suppress '','') argument) s = Match t r"
  shows "length r < length s"
proof -
  from assms obtain t1 :: "string ParseResults" and r1 t2 where
    c: "parse_elem (Suppress '','') s = Match t1 r1" and a: "parse_elem argument r1 = Match t2 r"
    by (auto simp: parse_elem_And split: outcome.splits)
  from Suppress_Match[OF c] have "preParse s = '','' @ r1" by simp
  then have "length r1 < length s" by (rule read_shorter) simp
  moreover from argument_Match[OF a] obtain w where "preParse r1 = w @ r" by blast
  then have "length r \<le> length r1" using preParse_length[of r1] by simp
  ultimately show ?thesis by simp
qed

lemma comma_argument_returns: "parse_elem (And (Suppress '','') argument) s \<noteq> NoReturn"
  by (simp add: parse_elem_And Suppress_returns argument_returns split: outcome.splits)

lemma join_Cons: "join sep (x # xs) = x @ concat (map (\<lambda>w. sep @ w) xs)"
  by (induction xs arbitrary: x) simp_all

lemma delimited_list_Match:
  assumes "parse_elem (delimited_list argument '','') s = Match t r"
  shows "toklist t \<noteq> [] \<and> tokdict t = Map.empty \<and> list_all argument_token (toklist t)
         \<and> strip_white s = join '','' (toklist t) @ strip_white r \<and> length r \<le> length s"
proof -
  let ?e = "And (Suppress '','') argument"
  from assms obtain t1 r1 t2 where
    a: "parse_elem argument s = Match t1 r1"
    and z: "parse_elem (ZeroOrMore ?e) r1 = Match t2 r"
    and t: "t = pr_add t1 t2"
    by (auto simp: delimited_list_def parse_elem_And split: outcome.splits)
  from argument_Match[OF a] obtain w where
    w: "toklist t1 = [w]" "tokdict t1 = Map.empty" "argument_token w" "preParse s = w @ r1"
    by blast
  have s: "strip_white s = w @ strip_white r1"
    by (rule read_text[OF w(4) argument_token_not_white[OF w(3)]])
  have "tokdict t2 = Map.empty \<and> list_all argument_token (toklist t2)
          \<and> strip_white r1 = concat (map (\<lambda>w. '','' @ w) (toklist t2)) @ strip_white r
          \<and> length r \<le> length r1"
  proof (cases "parse_elem ?e r1")
    case Fail
    with z show ?thesis
      by (auto simp: parse_elem_ZeroOrMore no_results_def strip_white_preParse preParse_length)
  next
    case NoReturn
    with z show ?thesis by (simp add: parse_elem_ZeroOrMore)
  next
    case (Match t0 r0)
    with z have m: "multiple_match ?e t0 r0 = Match t2 r"
      by (simp add: parse_elem_ZeroOrMore)
    note f0 = comma_argument_Match[OF Match]
    from multiple_match_Match[of ?e argument_token "\<lambda>w. '','' @ w", OF comma_argument_Match m]
    obtain xs where xs: "toklist t2 = toklist t0 @ xs" "tokdict t2 = tokdict t0"
      "list_all argument_token xs" "strip_white r0 = concat (map (\<lambda>w. '','' @ w) xs) @ strip_white r"
      "length r \<le> length r0"
      by blast
    show ?thesis using f0 xs comma_argument_shorter[OF Match] by simp
  qed
  then show ?thesis using t w s read_le[OF w(4)] by (simp add: pr_add_def join_Cons)
qed

lemma delimited_list_returns: "parse_elem (delimited_list argument '','') s \<noteq> NoReturn"
proof -
  have "multiple_match (And (Suppress '','') argument) acc x \<noteq> NoReturn" for acc x
    by (rule multiple_match_returns[OF comma_argument_returns comma_argument_shorter])
  then show ?thesis
    by (simp add: delimited_list_def parse_elem_And[of argument] parse_elem_ZeroOrMore
        argument_returns comma_argument_returns split: outcome.splits)
qed

lemma arguments_Match:
  assumes "parse_elem arguments s = Match t r"
  shows "toklist t \<noteq> [] \<and> tokdict t = [''args'' \<mapsto> toklist t]
         \<and> list_all argument_token (toklist t)
         \<and> strip_white s = ''('' @ join '','' (toklist t) @ '')'' @ strip_white r
         \<and> length r \<le> length s"
proof -
  from assms obtain t1 :: "string ParseResults" and r1 t2 r2 and t3 :: "string ParseResults"
    where l: "parse_elem (Suppress ''('') s = Match t1 r1"
      and d: "parse_elem (delimited_list argument '','') r1 = Match t2 r2"
      and c: "parse_elem (Suppress '')'') r2 = Match t3 r"
      and t: "t = (pr_add (pr_add t1 t2) t3)\<lparr>tokdict :=
                 (tokdict (pr_add (pr_add t1 t2) t3))(''args'' \<mapsto> toklist (pr_add (pr_add t1 t2) t3))\<rparr>"
    by (auto simp: arguments_def parse_elem_set_results_name parse_elem_And split: outcome.splits)
  from Suppress_Match[OF l] have t1: "t1 = no_results" and s1: "preParse s = ''('' @ r1"
    by simp_all
  from Suppress_Match[OF c] have t3: "t3 = no_results" and s3: "preParse r2 = '')'' @ r"
    by simp_all
  note d' = delimited_list_Match[OF d]
  have "strip_white s = ''('' @ strip_white r1"
    by (rule read_text[OF s1]) (simp add: white_chars_def)
  moreover have "strip_white r2 = '')'' @ strip_white r"
    by (rule read_text[OF s3]) (simp add: white_chars_def)
  ultimately show ?thesis using d' t t1 t3 read_le[OF s1] read_le[OF s3]
    by (simp add: pr_add_def no_results_def)
qed

lemma arguments_returns: "parse_elem arguments s \<noteq> NoReturn"
  by (simp add: arguments_def parse_elem_set_results_name parse_elem_And Suppress_returns
      delimited_list_returns split: outcome.splits)

lemma predicate_Match:
  assumes "parse_elem predicate_expr s = Match t r"
  shows "\<exists>w. toklist t = [w] \<and> tokdict t = [''id'' \<mapsto> [w]] \<and> variable_token w
             \<and> strip_white s = w @ strip_white r \<and> length r < length s"
proof -
  from assms obtain t0 where w0: "parse_elem (Word alphas) s = Match t0 r"
    and t: "t = t0\<lparr>tokdict := (tokdict t0)(''id'' \<mapsto> toklist t0)\<rparr>"
    by (auto simp: predicate_expr_def parse_elem_set_results_name split: outcome.splits)
  from Word_Match[OF w0] obtain w where
    w: "t0 = \<lparr>toklist = [w], tokdict = Map.empty\<rparr>" "w \<noteq> []" "set w \<subseteq> set alphas"
       "preParse s = w @ r"
    by blast
  have "strip_white s = w @ strip_white r"
    by (rule read_text[OF w(4) alphas_not_white[OF w(3)]])
  moreover have "length r < length s" by (rule read_shorter[OF w(4) w(2)])
  ultimately show ?thesis using t w by (simp add: variable_token_def list_all_iff subset_iff)
qed

lemma predicate_returns: "parse_elem predicate_expr s \<noteq> NoReturn"
  by (simp add: predicate_expr_def parse_elem_set_results_name Word_returns split: outcome.splits)

lemma sentence_Match:
  assumes "parse_elem sentence s = Match t r"
  shows "fact_inv t \<and> strip_white s = to_pred t @ ''.'' @ strip_white r \<and> length r < length s"
proof -
  from assms obtain tp r1 ta r2 and td :: "string ParseResults"
    where p: "parse_elem predicate_expr s = Match tp r1"
      and a: "parse_elem arguments r1 = Match ta r2"
      and d: "parse_elem (Suppress ''.'') r2 = Match td r"
      and t: "t = pr_add (pr_add tp ta) td"
    by (auto simp: sentence_def fact_expr_def parse_elem_And split: outcome.splits)
  from predicate_Match[OF p] obtain w where
    w: "toklist tp = [w]" "tokdict tp = [''id'' \<mapsto> [w]]" "variable_token w"
       "strip_white s = w @ strip_white r1" "length r1 < length s"
    by blast
  note a' = arguments_Match[OF a]
  from Suppress_Match[OF d] have td: "td = no_results" and s3: "preParse r2 = ''.'' @ r"
    by simp_all
  have dot: "strip_white r2 = ''.'' @ strip_white r"
    by (rule read_text[OF s3]) (simp add: white_chars_def)
  have tl: "toklist t = w # toklist ta" using t td w by (simp add: pr_add_def no_results_def)
  have id: "tokdict t ''id'' = Some [w]" using t td w a'
    by (simp add: pr_add_def no_results_def map_add_def)
  have ar: "tokdict t ''args'' = Some (toklist ta)" using t td w a'
    by (simp add: pr_add_def no_results_def map_add_def)
  have inv: "fact_inv t" using tl id ar w a' by (simp add: fact_inv_def attr_str_def attr_list_def)
  have "to_pred t = w @ ''('' @ join '','' (toklist ta) @ '')''"
    using id ar by (simp add: to_pred_def attr_str_def attr_list_def)
  then have "strip_white s = to_pred t @ ''.'' @ strip_white r" using w a' dot by simp
  moreover have "length r < length s" using w(5) a' read_le[OF s3] by simp
  ultimately show ?thesis using inv by simp
qed

lemma sentence_returns: "parse_elem sentence s \<noteq> NoReturn"
  by (simp add: sentence_def fact_expr_def parse_elem_And predicate_returns arguments_returns
      Suppress_returns split: outcome.splits)

lemma Group_sentence_Match:
  assumes "parse_elem (Group sentence) s = Match t r"
  shows "tokdict t = Map.empty \<and> list_all fact_inv (toklist t)
         \<and> strip_white s = concat (map (\<lambda>p. to_pred p @ ''.'') (toklist t)) @ strip_white r"
    and "length (toklist t) = 1" and "length r < length s"
proof -
  from assms obtain g where g: "parse_elem sentence s = Match g r"
    and t: "t = \<lparr>toklist = [g], tokdict = Map.empty\<rparr>"
    by (auto simp: parse_elem_Group split: outcome.splits)
  from sentence_Match[OF g] t
  show "tokdict t = Map.empty \<and> list_all fact_inv (toklist t)
         \<and> strip_white s = concat (map (\<lambda>p. to_pred p @ ''.'') (toklist t)) @ strip_white r"
    and "length (toklist t) = 1" and "length r < length s"
    by simp_all
qed

lemma Group_sentence_returns: "parse_elem (Group sentence) s \<noteq> NoReturn"
  by (simp add: parse_elem_Group sentence_returns split: outcome.splits)

lemma prolog_Match:
  assumes "parse_elem prolog s = Match t r"
  shows "toklist t \<noteq> [] \<and> list_all fact_inv (toklist t)
         \<and> strip_white s = concat (map (\<lambda>p. to_pred p @ ''.'') (toklist t)) @ strip_white r"
proof -
  let ?e = "Group sentence"
  from assms obtain t0 r0 where
    f: "parse_elem ?e s = Match t0 r0" and m: "multiple_match ?e t0 r0 = Match t r"
    by (auto simp: prolog_def create_parser_def parse_elem_OneOrMore split: outcome.splits)
  note f0 = Group_sentence_Match[OF f]
  from multiple_match_Match[of ?e fact_inv "\<lambda>p. to_pred p @ ''.''", OF Group_sentence_Match(1) m]
  obtain xs where xs: "toklist t = toklist t0 @ xs" "list_all fact_inv xs"
    "strip_white r0 = concat (map (\<lambda>p. to_pred p @ ''.'') xs) @ strip_white r"
    by blast
  have "toklist t0 \<noteq> []" using f0(2) by auto
  then show ?thesis using f0(1) xs by simp
qed

lemma prolog_returns: "parse_elem prolog s \<noteq> NoReturn"
proof -
  have "multiple_match (Group sentence) acc x \<noteq> NoReturn" for acc x
    by (rule multiple_match_returns[OF Group_sentence_returns Group_sentence_Match(3)])
  then show ?thesis
    by (simp add: prolog_def create_parser_def parse_elem_OneOrMore Group_sentence_returns
        split: outcome.splits)
qed

section \<open>What \<open>parse_file\<close> returns\<close>

lemma parse_string_prolog_Inr:
  assumes "parse_string prolog s True = Some (Inr res)"
  shows "toklist res \<noteq> [] \<and> list_all fact_inv (toklist res)
         \<and> strip_white s = concat (map (\<lambda>p. to_pred p @ ''.'') (toklist res))"
proof -
  from assms obtain r where m: "parse_elem prolog s = Match res r" and e: "preParse r = []"
    by (auto simp: parse_string_def split: outcome.splits if_splits)
  from e have "strip_white r = []" by (simp add: strip_white_Nil_iff)
  with prolog_Match[OF m] show ?thesis by simp
qed

lemma parse_string_prolog_cases:
  "parse_string prolog s True = Some (Inl ParseException)
   \<or> (\<exists>res. parse_string prolog s True = Some (Inr res))"
  using prolog_returns[of s]
  by (cases "parse_elem prolog s") (simp_all add: parse_string_def)

lemma parse_file_Inr:
  assumes "parse_file fs filename = Some (Inr res)"
  shows "\<exists>contents. fs filename = Some contents
           \<and> parse_string prolog contents True = Some (Inr res)"
  using assms by (cases "fs filename") (simp_all add: parse_file_def)

lemma map_result_unit_Inl:
  "map_result (\<lambda>_. ()) r = Some (Inl e) \<Longrightarrow> r = Some (Inl e)"
  by (auto simp: map_result_def bind_result_def split: option.splits sum.splits)

lemma map_result_Inr:
  "map_result f r = Some (Inr y) \<Longrightarrow> \<exists>v. r = Some (Inr v) \<and> f v = y"
  by (auto simp: map_result_def bind_result_def split: option.splits sum.splits)

section \<open>The decimal arity of a signature\<close>

lemma decimal_value_snoc: "decimal_value (d @ [c]) = 10 * decimal_value d + (of_char c - 48)"
  by (simp add: decimal_value_def)

lemma nums_nth:
  assumes "k < 10"
  shows "of_char (nums ! k) = 48 + k" and "nums ! k \<in> set nums"
    and "k = 0 \<or> nums ! k \<in> set ''123456789''"
proof -
  from assms have "k = 0 \<or> k = 1 \<or> k = 2 \<or> k = 3 \<or> k = 4 \<or> k = 5 \<or> k = 6 \<or> k = 7 \<or> k = 8
     \<or> k = 9" by arith
  then show "of_char (nums ! k) = 48 + k" and "nums ! k \<in> set nums"
    and "k = 0 \<or> nums ! k \<in> set ''123456789''"
    by (auto simp: nums_def)
qed

lemma str_nat_value: "decimal_value (str_nat n) = n"
proof (induction n rule: str_nat.induct)
  case (1 n)
  show ?case
  proof (cases "n < 10")
    case True
    then show ?thesis
      using nums_nth(1)[OF True]
      by (simp add: str_nat.simps[of n] decimal_value_def)
  next
    case False
    have "n mod 10 < 10" by simp
    from nums_nth(1)[OF this] "1.IH"[OF False] False show ?thesis
      by (simp add: str_nat.simps[of n] decimal_value_snoc)
  qed
qed

lemma str_nat_digits: "str_nat n \<noteq> [] \<and> list_all (\<lambda>c. c \<in> set nums) (str_nat n)"
proof (induction n rule: str_nat.induct)
  case (1 n)
  show ?case
  proof (cases "n < 10")
    case True
    then show ?thesis using nums_nth(2)[OF True] by (simp add: str_nat.simps[of n])
  next
    case False
    have "n mod 10 < 10" by simp
    from nums_nth(2)[OF this] "1.IH"[OF False] False show ?thesis
      by (simp add: str_nat.simps[of n])
  qed
qed

lemma str_nat_leading: "str_nat n = ''0'' \<or> hd (str_nat n) \<in> set ''123456789''"
proof (induction n rule: str_nat.induct)
  case (1 n)
  show ?case
  proof (cases "n < 10")
    case True
    then show ?thesis using nums_nth(3)[OF True]
      by (auto simp: str_nat.simps[of n] nums_def)
  next
    case False
    have ne: "str_nat (n div 10) \<noteq> []" using str_nat_digits by blast
    have "str_nat (n div 10) \<noteq> ''0''"
    proof
      assume "str_nat (n div 10) = ''0''"
      then have "decimal_value (str_nat (n div 10)) = 0" by (simp add: decimal_value_def)
      then show False using False by (simp add: str_nat_value)
    qed
    with "1.IH"[OF False] ne False show ?thesis
      by (simp add: str_nat.simps[of n])
  qed
qed

section \<open>What \<open>setup_custom\<close> returns\<close>



lemma parse_file_nonempty:
  assumes "parse_file fs filename = Some (Inr res)"
  shows "\<exists>p ps. toklist res = p # ps"
proof -
  from parse_file_Inr[OF assms] obtain contents where
    "parse_string prolog contents True = Some (Inr res)" by (elim exE conjE)
  from parse_string_prolog_Inr[OF this] show ?thesis by (cases "toklist res") simp_all
qed

lemma map_Constant: "map Constant xs = xs"
  by (rule map_idI) (simp add: Constant_def)

lemma setup_custom_Inr:
  assumes "setup_custom list_set fs example_path = Some (Inr (ilp, pt))"
  shows "\<exists>bk positive_exs negative_exs p ps.
           parse_file fs (example_path @ [''bk.pl'']) = Some (Inr bk) \<and>
           parse_file fs (example_path @ [''pos.pl'']) = Some (Inr positive_exs) \<and>
           parse_file fs (example_path @ [''neg.pl'']) = Some (Inr negative_exs) \<and>
           toklist positive_exs = p # ps \<and>
           problem_name ilp = path_name example_path \<and>
           target (language_model ilp) = to_pred_str p \<and>
           preds_ext (language_model ilp) = map to_pred_str (toklist bk) \<and>
           constants (language_model ilp) =
             list_set (get_all_unique_args list_set bk
               @ get_all_unique_args list_set positive_exs
               @ get_all_unique_args list_set negative_exs) \<and>
           background_axioms ilp = map to_pred (toklist bk) \<and>
           positive_examples ilp = map to_pred (toklist positive_exs) \<and>
           negative_examples ilp = map to_pred (toklist negative_exs) \<and>
           preds_aux pt = [''pred/2''] \<and>
           forward_chaining_steps pt = 6 \<and>
           rules pt = [to_pred_str p \<mapsto> (RuleTemplate 0 False, Some (RuleTemplate 1 True)),
                       ''pred/2'' \<mapsto> (RuleTemplate 1 False, None)]"
proof -
  from assms obtain bk where bk: "parse_file fs (example_path @ [''bk.pl'']) = Some (Inr bk)"
    by (auto simp: setup_custom_def Let_def bind_result_def split: option.splits sum.splits)
  from assms bk obtain positive_exs where
    pos: "parse_file fs (example_path @ [''pos.pl'']) = Some (Inr positive_exs)"
    by (auto simp: setup_custom_def Let_def bind_result_def split: option.splits sum.splits)
  from assms bk pos obtain negative_exs where
    neg: "parse_file fs (example_path @ [''neg.pl'']) = Some (Inr negative_exs)"
    by (auto simp: setup_custom_def Let_def bind_result_def split: option.splits sum.splits)
  from parse_file_nonempty[OF pos] obtain p ps where p: "toklist positive_exs = p # ps"
    by (elim exE)
  from assms bk pos neg p show ?thesis
    by (auto simp: setup_custom_def Let_def bind_result_def first_result_def str2pred_def
        str2ground_atom_def map_Constant get_pred_str_list_def comp_def)
qed

lemma setup_custom_parsed:
  assumes "parse_file fs (example_path @ [''bk.pl'']) = Some (Inr bk)"
    and "parse_file fs (example_path @ [''pos.pl'']) = Some (Inr positive_exs)"
    and "parse_file fs (example_path @ [''neg.pl'']) = Some (Inr negative_exs)"
  shows "\<exists>ilp pt. setup_custom list_set fs example_path = Some (Inr (ilp, pt))"
proof -
  from parse_file_nonempty[OF assms(2)] obtain p ps where "toklist positive_exs = p # ps"
    by (elim exE)
  with assms show ?thesis
    by (simp add: setup_custom_def Let_def bind_result_def first_result_def)
qed


section \<open>The lists that \<open>setup_custom\<close> builds\<close>

lemma foldl_extend: "foldl (\<lambda>res p. res @ f p) acc xs = acc @ concat (map f xs)"
  by (induction xs arbitrary: acc) simp_all

lemma get_all_unique_args_concat:
  "get_all_unique_args list_set results
     = list_set (concat (map (\<lambda>p. attr_list p ''args'') (toklist results)))"
  by (simp add: get_all_unique_args_def foldl_extend)

lemma str_nat_small: "n < 10 \<Longrightarrow> str_nat n = [nums ! n]"
  by (simp add: str_nat.simps[of n])

lemma to_pred_str_facts_of:
  "map to_pred_str (toklist res) = map (\<lambda>(n, as). n @ ''/'' @ str_nat (length as)) (facts_of res)"
  by (simp add: facts_of_def to_pred_str_def comp_def)

lemma to_pred_facts_of:
  "map to_pred (toklist res) = map (\<lambda>(n, as). n @ ''('' @ join '','' as @ '')'') (facts_of res)"
  by (simp add: facts_of_def to_pred_def comp_def)

lemma args_facts_of:
  "concat (map (\<lambda>p. attr_list p ''args'') (toklist res)) = concat (map snd (facts_of res))"
  by (simp add: facts_of_def comp_def)


lemma setup_custom_preds_ext:
  assumes "setup_custom list_set fs example_path = Some (Inr (ilp, pt))"
  shows "\<exists>bk. parse_file fs (example_path @ [''bk.pl'']) = Some (Inr bk)
           \<and> preds_ext (language_model ilp) = map to_pred_str (toklist bk)
           \<and> length (preds_ext (language_model ilp)) = length (toklist bk)"
proof -
  from setup_custom_Inr[OF assms] obtain bk where
    "parse_file fs (example_path @ [''bk.pl'']) = Some (Inr bk)"
    "preds_ext (language_model ilp) = map to_pred_str (toklist bk)"
    by (elim exE conjE)
  then show ?thesis by auto
qed

section \<open>The texts of single facts that the grammar accepts\<close>

lemma preParse_white: "white w \<Longrightarrow> preParse (w @ x) = preParse x"
  by (simp add: white_def preParse_def list_all_iff dropWhile_append2)

lemma preParse_not_white: "c \<notin> set white_chars \<Longrightarrow> preParse (c # x) = c # x"
  by (simp add: preParse_def)

lemma preParse_Nil: "white w \<Longrightarrow> preParse w = []"
  by (simp add: white_def preParse_def list_all_iff)

lemma ends_token_delim:
  assumes "white w" and "c \<in> set ''(,)''"
  shows "ends_token (w @ c # y)"
proof (cases w)
  case Nil
  with assms(2) show ?thesis by (auto simp: ends_token_def alphas_def nums_def)
next
  case (Cons d ds)
  with assms(1) have "d \<in> set white_chars" by (simp add: white_def)
  then show ?thesis using Cons by (auto simp: ends_token_def alphas_def nums_def white_chars_def)
qed

lemma Word_forward:
  assumes "tok \<noteq> []" and "set tok \<subseteq> set cs" and "set cs \<inter> set white_chars = {}"
    and "white w" and "x = [] \<or> hd x \<notin> set cs"
  shows "parse_elem (Word cs) (w @ tok @ x) = Match \<lparr>toklist = [tok], tokdict = Map.empty\<rparr> x"
proof -
  from assms(1,2,3) obtain c cs' where tok: "tok = c # cs'" and c: "c \<notin> set white_chars"
    by (cases tok) auto
  have p: "preParse (w @ tok @ x) = tok @ x"
    using preParse_white[OF assms(4)] preParse_not_white[OF c] tok by simp
  have t: "takeWhile (\<lambda>c. c \<in> set cs) (tok @ x) = tok"
    using assms(2,5) by (cases x) (auto simp: takeWhile_append2 subset_iff)
  have d: "dropWhile (\<lambda>c. c \<in> set cs) (tok @ x) = x"
    using assms(2,5) by (cases x) (auto simp: dropWhile_append2 subset_iff)
  show ?thesis using assms(1) by (simp add: parse_elem_def p Word_def t d)
qed

lemma Word_Fail:
  assumes "preParse x = [] \<or> hd (preParse x) \<notin> set cs"
  shows "parse_elem (Word cs) x = Fail"
  using assms by (cases "preParse x") (auto simp: parse_elem_def Word_def)

lemma Suppress_forward:
  assumes "preParse x = lit @ y"
  shows "parse_elem (Suppress lit) x = Match no_results y"
  using assms by (simp add: parse_elem_def Suppress_def)

lemma Suppress_Fail:
  assumes "preParse x = [] \<or> hd (preParse x) \<noteq> c"
  shows "parse_elem (Suppress [c]) x = Fail"
  using assms by (cases "preParse x") (auto simp: parse_elem_def Suppress_def)

lemma alphas_nums_disjoint: "set alphas \<inter> set (nums @ ''.'') = {}"
  by (simp add: alphas_def nums_def)

lemma argument_forward:
  assumes "argument_token a" and "white w" and "ends_token x"
  shows "parse_elem argument (w @ a @ x) = Match \<lparr>toklist = [a], tokdict = Map.empty\<rparr> x"
proof (cases "number_token a")
  case True
  then have "a \<noteq> []" "set a \<subseteq> set (nums @ ''.'')"
    by (auto simp: number_token_def list_all_iff)
  from Word_forward[OF this _ assms(2), of x] assms(3)
  have "parse_elem (Word (nums @ ''.'')) (w @ a @ x)
          = Match \<lparr>toklist = [a], tokdict = Map.empty\<rparr> x"
    using nums_not_white[of "nums @ ''.''"] by (auto simp: ends_token_def)
  then show ?thesis by (simp add: argument_def parse_elem_MatchFirst number_def)
next
  case False
  with assms(1) have v: "a \<noteq> []" "set a \<subseteq> set alphas"
    by (auto simp: argument_token_def variable_token_def list_all_iff)
  then obtain c cs' where a: "a = c # cs'" and c: "c \<in> set alphas" by (cases a) auto
  from c have cw: "c \<notin> set white_chars" using alphas_not_white[of "[c]"] by auto
  from c have cn: "c \<notin> set (nums @ ''.'')" using alphas_nums_disjoint by blast
  have p: "preParse (w @ a @ x) = a @ x"
    using preParse_white[OF assms(2)] preParse_not_white[OF cw] a by simp
  have f: "parse_elem (Word (nums @ ''.'')) (w @ a @ x) = Fail"
    by (rule Word_Fail) (use p a cn in simp)
  from Word_forward[OF v _ assms(2), of x] assms(3)
  have "parse_elem (Word alphas) (w @ a @ x) = Match \<lparr>toklist = [a], tokdict = Map.empty\<rparr> x"
    using alphas_not_white[of alphas] by (auto simp: ends_token_def)
  with f show ?thesis by (simp add: argument_def parse_elem_MatchFirst number_def variable_def)
qed

lemma ends_token_more_args:
  assumes "list_all spaced_arg rest" and "white w"
  shows "ends_token (more_args rest @ w @ '')'' @ y)"
proof (cases rest)
  case Nil
  then show ?thesis using ends_token_delim[OF assms(2), of "CHR '')''" y] by simp
next
  case (Cons r rs)
  obtain w1 w2 a where r: "r = (w1, w2, a)" by (cases r)
  from assms(1) Cons have "spaced_arg r" by simp
  with r have "white w1" by (simp add: spaced_arg_def)
  from ends_token_delim[OF this, of "CHR '',''"] show ?thesis using Cons r by simp
qed

lemma comma_loop_forward:
  assumes "list_all spaced_arg rest" and "white w"
  shows "multiple_match (And (Suppress '','') argument) \<lparr>toklist = xs, tokdict = Map.empty\<rparr>
           (more_args rest @ w @ '')'' @ y)
         = Match \<lparr>toklist = xs @ map (\<lambda>(w1, w2, a). a) rest, tokdict = Map.empty\<rparr>
             (w @ '')'' @ y)"
  using assms(1)
proof (induction rest arbitrary: xs)
  case Nil
  define s where "s = w @ '')'' @ y"
  have "preParse s = '')'' @ y"
    unfolding s_def using preParse_white[OF assms(2)]
    by (simp add: preParse_not_white white_chars_def)
  then have "parse_elem (Suppress '','') s = (Fail :: string outcome)"
    by (intro Suppress_Fail) simp
  then have "parse_elem (And (Suppress '','') argument) s = Fail"
    by (simp add: parse_elem_And)
  then have "multiple_match (And (Suppress '','') argument) \<lparr>toklist = xs, tokdict = Map.empty\<rparr> s
               = Match \<lparr>toklist = xs, tokdict = Map.empty\<rparr> s"
    by (subst multiple_match.simps) simp
  then show ?case by (simp add: s_def)
next
  case (Cons r rest)
  obtain w1 w2 a where r: "r = (w1, w2, a)" by (cases r)
  from Cons.prems have "spaced_arg r" and rest: "list_all spaced_arg rest" by simp_all
  with r have w: "white w1" "white w2" "argument_token a" by (simp_all add: spaced_arg_def)
  define tail where "tail = more_args rest @ w @ '')'' @ y"
  define s where "s = w1 @ '','' @ w2 @ a @ tail"
  have s: "more_args (r # rest) @ w @ '')'' @ y = s" by (simp add: s_def tail_def r)
  have "preParse s = '','' @ (w2 @ a @ tail)"
    unfolding s_def using preParse_white[OF w(1)]
    by (simp add: preParse_not_white white_chars_def)
  then have c: "parse_elem (Suppress '','') s = (Match no_results (w2 @ a @ tail) :: string outcome)"
    by (rule Suppress_forward)
  have a: "parse_elem argument (w2 @ a @ tail) = Match \<lparr>toklist = [a], tokdict = Map.empty\<rparr> tail"
    unfolding tail_def
    by (rule argument_forward[OF w(3) w(2) ends_token_more_args[OF rest assms(2)]])
  have step: "parse_elem (And (Suppress '','') argument) s
                = Match \<lparr>toklist = [a], tokdict = Map.empty\<rparr> tail"
    by (simp add: parse_elem_And c a pr_add_def no_results_def)
  have lt: "length tail < length s" by (simp add: s_def)
  have "multiple_match (And (Suppress '','') argument) \<lparr>toklist = xs, tokdict = Map.empty\<rparr> s
          = multiple_match (And (Suppress '','') argument)
              \<lparr>toklist = xs @ [a], tokdict = Map.empty\<rparr> tail"
    by (subst multiple_match.simps) (simp add: step lt pr_add_def)
  also have "\<dots> = Match \<lparr>toklist = (xs @ [a]) @ map (\<lambda>(w1, w2, a). a) rest, tokdict = Map.empty\<rparr>
                     (w @ '')'' @ y)"
    unfolding tail_def by (rule Cons.IH[OF rest])
  finally show ?case unfolding s by (simp add: r)
qed


lemma pr_add_no_results_left: "pr_add no_results t = t"
  by (simp add: pr_add_def no_results_def)

lemma pr_add_no_results_right: "pr_add t no_results = t"
  by (simp add: pr_add_def no_results_def)

lemma delimited_list_forward:
  assumes "argument_token arg" and "white w2" and "list_all spaced_arg rest" and "white w3"
  shows "\<exists>r. parse_elem (delimited_list argument '','')
                (w2 @ arg @ more_args rest @ w3 @ '')'' @ y)
              = Match \<lparr>toklist = arg # map (\<lambda>(w1, w2, a). a) rest, tokdict = Map.empty\<rparr> r
            \<and> preParse r = '')'' @ y"
proof -
  let ?e = "And (Suppress '','') argument"
  define close where "close = w3 @ '')'' @ y"
  define tail where "tail = more_args rest @ close"
  define args where "args = map (\<lambda>(w1 :: string, w2 :: string, a :: string). a) rest"
  have pc: "preParse close = '')'' @ y"
    unfolding close_def using preParse_white[OF assms(4)]
    by (simp add: preParse_not_white white_chars_def)
  have first: "parse_elem argument (w2 @ arg @ tail)
                 = Match \<lparr>toklist = [arg], tokdict = Map.empty\<rparr> tail"
    unfolding tail_def close_def
    by (rule argument_forward[OF assms(1,2) ends_token_more_args[OF assms(3,4)]])
  have loop: "multiple_match ?e no_results tail
                = Match \<lparr>toklist = args, tokdict = Map.empty\<rparr> close"
    using comma_loop_forward[OF assms(3,4), of "[]" y]
    by (simp add: no_results_def tail_def close_def args_def)
  have "\<exists>r. parse_elem (ZeroOrMore ?e) tail = Match \<lparr>toklist = args, tokdict = Map.empty\<rparr> r
          \<and> preParse r = '')'' @ y"
  proof (cases "parse_elem ?e tail")
    case Fail
    then have "multiple_match ?e no_results tail = Match no_results tail"
      by (subst multiple_match.simps) simp
    with loop have "args = []" "tail = close" by (simp_all add: no_results_def)
    with Fail pc show ?thesis
      by (simp add: parse_elem_ZeroOrMore no_results_def preParse_not_white white_chars_def)
  next
    case NoReturn
    then have "multiple_match ?e no_results tail = NoReturn"
      by (subst multiple_match.simps) simp
    with loop show ?thesis by simp
  next
    case (Match t r)
    from comma_argument_shorter[OF Match] have lt: "length r < length tail" .
    have "multiple_match ?e no_results tail = multiple_match ?e t r"
      by (subst multiple_match.simps) (simp add: Match lt pr_add_no_results_left)
    with loop Match pc show ?thesis by (simp add: parse_elem_ZeroOrMore)
  qed
  then obtain r where z: "parse_elem (ZeroOrMore ?e) tail
      = Match \<lparr>toklist = args, tokdict = Map.empty\<rparr> r" and r: "preParse r = '')'' @ y"
    by (elim exE conjE)
  have "parse_elem (delimited_list argument '','') (w2 @ arg @ tail)
          = Match \<lparr>toklist = arg # args, tokdict = Map.empty\<rparr> r"
    by (simp add: delimited_list_def parse_elem_And first z pr_add_def)
  with r show ?thesis unfolding tail_def close_def args_def by blast
qed

lemma arguments_forward:
  assumes "white w1" and "argument_token arg" and "white w2" and "list_all spaced_arg rest"
    and "white w3"
  shows "parse_elem arguments (w1 @ ''('' @ w2 @ arg @ more_args rest @ w3 @ '')'' @ y)
           = Match \<lparr>toklist = arg # map (\<lambda>(w1, w2, a). a) rest,
                    tokdict = [''args'' \<mapsto> arg # map (\<lambda>(w1, w2, a). a) rest]\<rparr> y"
proof -
  define inner where "inner = w2 @ arg @ more_args rest @ w3 @ '')'' @ y"
  define s where "s = w1 @ ''('' @ inner"
  have "preParse s = ''('' @ inner"
    unfolding s_def using preParse_white[OF assms(1)]
    by (simp add: preParse_not_white white_chars_def)
  then have l: "parse_elem (Suppress ''('') s = (Match no_results inner :: string outcome)"
    by (rule Suppress_forward)
  from delimited_list_forward[OF assms(2,3,4,5), of y] obtain r where
    d: "parse_elem (delimited_list argument '','') inner
          = Match \<lparr>toklist = arg # map (\<lambda>(w1, w2, a). a) rest, tokdict = Map.empty\<rparr> r"
    and r: "preParse r = '')'' @ y"
    unfolding inner_def by (elim exE conjE)
  have c: "parse_elem (Suppress '')'') r = (Match no_results y :: string outcome)"
    by (rule Suppress_forward[OF r])
  have "parse_elem arguments s
          = Match \<lparr>toklist = arg # map (\<lambda>(w1, w2, a). a) rest,
                   tokdict = [''args'' \<mapsto> arg # map (\<lambda>(w1, w2, a). a) rest]\<rparr> y"
    by (simp add: arguments_def parse_elem_set_results_name parse_elem_And l d c
        pr_add_def no_results_def)
  then show ?thesis by (simp add: s_def inner_def)
qed

lemma predicate_forward:
  assumes "variable_token name" and "white w0" and "ends_token x"
  shows "parse_elem predicate_expr (w0 @ name @ x)
           = Match \<lparr>toklist = [name], tokdict = [''id'' \<mapsto> [name]]\<rparr> x"
proof -
  from assms(1) have v: "name \<noteq> []" "set name \<subseteq> set alphas"
    by (auto simp: variable_token_def list_all_iff)
  from Word_forward[OF v _ assms(2), of x] assms(3)
  have "parse_elem (Word alphas) (w0 @ name @ x)
          = Match \<lparr>toklist = [name], tokdict = Map.empty\<rparr> x"
    using alphas_not_white[of alphas] by (auto simp: ends_token_def)
  then show ?thesis by (simp add: predicate_expr_def parse_elem_set_results_name)
qed

lemma sentence_forward:
  assumes "variable_token name" and "white w0" and "white w1" and "argument_token arg"
    and "white w2" and "list_all spaced_arg rest" and "white w3" and "white w4"
  shows "\<exists>g. parse_elem sentence (w0 @ sentence_text name w1 w2 arg rest w3 w4 @ z) = Match g z
           \<and> attr_str g ''id'' = name
           \<and> attr_list g ''args'' = arg # map (\<lambda>(w1, w2, a). a) rest"
proof -
  define args where "args = arg # map (\<lambda>(w1 :: string, w2 :: string, a :: string). a) rest"
  define dot where "dot = w4 @ ''.'' @ z"
  define after where "after = w1 @ ''('' @ w2 @ arg @ more_args rest @ w3 @ '')'' @ dot"
  have s: "w0 @ sentence_text name w1 w2 arg rest w3 w4 @ z = w0 @ name @ after"
    by (simp add: sentence_text_def after_def dot_def)
  have "ends_token after"
    unfolding after_def using ends_token_delim[OF assms(3), of "CHR ''(''"] by simp
  from predicate_forward[OF assms(1,2) this]
  have p: "parse_elem predicate_expr (w0 @ name @ after)
             = Match \<lparr>toklist = [name], tokdict = [''id'' \<mapsto> [name]]\<rparr> after" .
  have a: "parse_elem arguments after
             = Match \<lparr>toklist = args, tokdict = [''args'' \<mapsto> args]\<rparr> dot"
    unfolding after_def args_def by (rule arguments_forward[OF assms(3,4,5,6,7)])
  have "preParse dot = ''.'' @ z"
    unfolding dot_def using preParse_white[OF assms(8)]
    by (simp add: preParse_not_white white_chars_def)
  then have d: "parse_elem (Suppress ''.'') dot = (Match no_results z :: string outcome)"
    by (rule Suppress_forward)
  define g where "g = pr_add (pr_add \<lparr>toklist = [name], tokdict = [''id'' \<mapsto> [name]]\<rparr>
                        \<lparr>toklist = args, tokdict = [''args'' \<mapsto> args]\<rparr>) no_results"
  have "parse_elem sentence (w0 @ name @ after) = Match g z"
    by (simp add: sentence_def fact_expr_def parse_elem_And p a d g_def)
  moreover have "attr_str g ''id'' = name" "attr_list g ''args'' = args"
    by (simp_all add: g_def pr_add_def no_results_def attr_str_def attr_list_def map_add_def)
  ultimately show ?thesis unfolding s args_def by blast
qed

lemma prolog_forward:
  assumes "variable_token name" and "white w0" and "white w1" and "argument_token arg"
    and "white w2" and "list_all spaced_arg rest" and "white w3" and "white w4"
    and "white w5"
  shows "\<exists>res p. parse_string prolog (w0 @ sentence_text name w1 w2 arg rest w3 w4 @ w5) True
                    = Some (Inr res)
           \<and> toklist res = [p] \<and> attr_str p ''id'' = name
           \<and> attr_list p ''args'' = arg # map (\<lambda>(w1, w2, a). a) rest"
proof -
  define s where "s = w0 @ sentence_text name w1 w2 arg rest w3 w4 @ w5"
  from sentence_forward[OF assms(1-8), of w5] obtain g where
    g: "parse_elem sentence s = Match g w5" "attr_str g ''id'' = name"
       "attr_list g ''args'' = arg # map (\<lambda>(w1, w2, a). a) rest"
    unfolding s_def by (elim exE conjE)
  have e: "preParse w5 = []" by (rule preParse_Nil[OF assms(9)])
  have "parse_elem (Word alphas) w5 = Fail" by (rule Word_Fail) (simp add: e)
  then have f: "parse_elem (Group sentence) w5 = Fail"
    by (simp add: parse_elem_Group sentence_def fact_expr_def parse_elem_And predicate_expr_def
        parse_elem_set_results_name)
  have "multiple_match (Group sentence) \<lparr>toklist = [g], tokdict = Map.empty\<rparr> w5
          = Match \<lparr>toklist = [g], tokdict = Map.empty\<rparr> w5"
    by (subst multiple_match.simps) (simp add: f)
  then have "parse_elem prolog s = Match \<lparr>toklist = [g], tokdict = Map.empty\<rparr> w5"
    by (simp add: prolog_def create_parser_def parse_elem_OneOrMore parse_elem_Group g(1))
  then have "parse_string prolog s True = Some (Inr \<lparr>toklist = [g], tokdict = Map.empty\<rparr>)"
    by (simp add: parse_string_def e)
  with g(2,3) show ?thesis unfolding s_def by auto
qed

lemma spec_argument_token: "spec_argument a \<Longrightarrow> argument_token a"
  by (auto simp: spec_argument_def spec_number_def argument_token_def number_token_def
      list_ex_iff)

lemma single_fact_text:
  assumes "parse_string prolog s True = Some (Inr res)" and "toklist res = [p]"
  shows "to_pred p = butlast (strip_white s) \<and> last (strip_white s) = CHR ''.''"
proof -
  from parse_string_prolog_Inr[OF assms(1)] assms(2)
  have "strip_white s = to_pred p @ [CHR ''.'']" by simp
  then have "butlast (strip_white s) = to_pred p" and "last (strip_white s) = CHR ''.''"
    by (simp_all only: butlast_snoc last_snoc)
  then show ?thesis by simp
qed

section \<open>The claims\<close>

text \<open>
  C1, as amended. For \<open>pos.pl = even(0). even(2).\<close>, \<open>bk.pl = zero(0). succ(0,1).\<close> and
  \<open>neg.pl = even(1).\<close> (a newline between the facts) in the directory \<open>even\<close>,
  \<open>setup_custom\<close> returns the problem \<open>even\<close> with target \<open>even/1\<close>, extensional
  signatures \<open>zero/1, succ/2\<close>, the constants \<open>0\<close>, \<open>1\<close> and \<open>2\<close>, the positive
  examples \<open>even(0), even(2)\<close>, the negative example \<open>even(1)\<close> and the background
  \<open>zero(0), succ(0,1)\<close>, whatever the order in which Python iterates over a set.
\<close>

theorem setup_custom_even:
  assumes "\<And>xs. set (list_set xs) = set xs"
  shows "\<exists>ilp pt. setup_custom list_set even_files [''even''] = Some (Inr (ilp, pt))
           \<and> problem_name ilp = ''even''
           \<and> target (language_model ilp) = ''even/1''
           \<and> preds_ext (language_model ilp) = [''zero/1'', ''succ/2'']
           \<and> set (constants (language_model ilp)) = {''0'', ''1'', ''2''}
           \<and> positive_examples ilp = [''even(0)'', ''even(2)'']
           \<and> negative_examples ilp = [''even(1)'']
           \<and> background_axioms ilp = [''zero(0)'', ''succ(0,1)'']"
proof -
  have "map_result facts_of (parse_file even_files ([''even''] @ [''bk.pl'']))
          = Some (Inr [(''zero'', [''0'']), (''succ'', [''0'', ''1''])])"
    by code_simp
  from map_result_Inr[OF this] obtain bk where
    bk: "parse_file even_files ([''even''] @ [''bk.pl'']) = Some (Inr bk)"
    and fbk: "facts_of bk = [(''zero'', [''0'']), (''succ'', [''0'', ''1''])]"
    by (elim exE conjE)
  have "map_result facts_of (parse_file even_files ([''even''] @ [''pos.pl'']))
          = Some (Inr [(''even'', [''0'']), (''even'', [''2''])])"
    by code_simp
  from map_result_Inr[OF this] obtain pos where
    pos: "parse_file even_files ([''even''] @ [''pos.pl'']) = Some (Inr pos)"
    and fpos: "facts_of pos = [(''even'', [''0'']), (''even'', [''2''])]"
    by (elim exE conjE)
  have "map_result facts_of (parse_file even_files ([''even''] @ [''neg.pl'']))
          = Some (Inr [(''even'', [''1''])])"
    by code_simp
  from map_result_Inr[OF this] obtain neg where
    neg: "parse_file even_files ([''even''] @ [''neg.pl'']) = Some (Inr neg)"
    and fneg: "facts_of neg = [(''even'', [''1''])]"
    by (elim exE conjE)
  from setup_custom_parsed[OF bk pos neg, of list_set] obtain ilp pt where
    r: "setup_custom list_set even_files [''even''] = Some (Inr (ilp, pt))"
    by (elim exE)
  from setup_custom_Inr[OF r] bk pos neg obtain p ps where
    p: "toklist pos = p # ps"
    and f: "problem_name ilp = path_name [''even'']"
      "target (language_model ilp) = to_pred_str p"
      "preds_ext (language_model ilp) = map to_pred_str (toklist bk)"
      "constants (language_model ilp) =
         list_set (get_all_unique_args list_set bk @ get_all_unique_args list_set pos
           @ get_all_unique_args list_set neg)"
      "background_axioms ilp = map to_pred (toklist bk)"
      "positive_examples ilp = map to_pred (toklist pos)"
      "negative_examples ilp = map to_pred (toklist neg)"
    by auto
  have "map to_pred_str (toklist pos) = [''even/1'', ''even/1'']"
    by (simp add: to_pred_str_facts_of fpos str_nat_small nums_def)
  with p have t: "to_pred_str p = ''even/1''" by simp
  have e: "map to_pred_str (toklist bk) = [''zero/1'', ''succ/2'']"
    by (simp add: to_pred_str_facts_of fbk str_nat_small nums_def)
  have c: "set (constants (language_model ilp)) = {''0'', ''1'', ''2''}"
    by (auto simp: f(4) assms get_all_unique_args_concat args_facts_of fbk fpos fneg)
  have g: "map to_pred (toklist bk) = [''zero(0)'', ''succ(0,1)'']"
    "map to_pred (toklist pos) = [''even(0)'', ''even(2)'']"
    "map to_pred (toklist neg) = [''even(1)'']"
    by (simp_all add: to_pred_facts_of fbk fpos fneg)
  from r f t e c g show ?thesis by (simp add: path_name_def)
qed

theorem setup_custom_even_witness:
  "(\<forall>xs :: string list. set (remdups xs) = set xs)
   \<and> (\<exists>ilp pt. setup_custom remdups even_files [''even''] = Some (Inr (ilp, pt))
           \<and> target (language_model ilp) = ''even/1''
           \<and> preds_ext (language_model ilp) = [''zero/1'', ''succ/2'']
           \<and> set (constants (language_model ilp)) = {''0'', ''1'', ''2''}
           \<and> positive_examples ilp = [''even(0)'', ''even(2)'']
           \<and> negative_examples ilp = [''even(1)'']
           \<and> background_axioms ilp = [''zero(0)'', ''succ(0,1)''])"
  using setup_custom_even[of remdups] by auto

text \<open>
  C1 as stated fails in the constants: they are not \<open>0\<close> and \<open>1\<close> only, since \<open>2\<close>,
  the argument of the positive example \<open>even(2)\<close>, is one of them.
\<close>

theorem setup_custom_even_counterexample:
  "map_result (\<lambda>(ilp, pt). (set (constants (language_model ilp)) = {''0'', ''1''},
                 ''2'' \<in> set (constants (language_model ilp))))
     (setup_custom remdups even_files [''even''])
   = Some (Inr (False, True))"
  by code_simp

text \<open>
  C2. The claim fails on the code. For a background file with the facts \<open>zero(0)\<close>,
  \<open>succ(0,1)\<close>, \<open>succ(1,2)\<close> and \<open>succ(2,3)\<close>, \<open>setup_custom\<close> returns the extensional
  signatures \<open>zero/1, succ/2, succ/2, succ/2\<close>: one for each fact, with \<open>succ/2\<close>
  three times, where the claim has \<open>zero/1, succ/2\<close>.
\<close>

theorem setup_custom_preds_ext_duplicates:
  "map_result (\<lambda>(ilp, pt). (preds_ext (language_model ilp),
                 distinct (preds_ext (language_model ilp))))
     (setup_custom remdups zero_succ_files [''even''])
   = Some (Inr ([''zero/1'', ''succ/2'', ''succ/2'', ''succ/2''], False))"
  by code_simp

text \<open>
  C3, as amended. In every fact that \<open>parse_file\<close> returns the argument list is not
  empty, and every argument token is a non-empty run of digits and points or a
  non-empty run of letters. Nothing more holds of a token of the first kind: it
  need not contain a digit and may contain several points.
\<close>

theorem parse_file_argument_tokens:
  assumes "parse_file fs filename = Some (Inr res)" and "p \<in> set (toklist res)"
  shows "attr_list p ''args'' \<noteq> []
         \<and> (\<forall>a \<in> set (attr_list p ''args'').
               a \<noteq> [] \<and> (set a \<subseteq> set (nums @ ''.'') \<or> set a \<subseteq> set alphas))"
proof -
  from parse_file_Inr[OF assms(1)] obtain contents where
    "parse_string prolog contents True = Some (Inr res)" by blast
  from parse_string_prolog_Inr[OF this] assms(2) have "fact_inv p"
    by (simp add: list_all_iff)
  then show ?thesis
    by (auto simp: fact_inv_def argument_token_def number_token_def variable_token_def
        list_all_iff)
qed

theorem parse_file_argument_tokens_witness:
  "\<exists>res p. parse_file dots_files [''bk.pl''] = Some (Inr res) \<and> p \<in> set (toklist res)
     \<and> attr_list p ''args'' = [''..'', ''1.2.3'']
     \<and> set ''..'' \<subseteq> set (nums @ ''.'') \<and> set ''1.2.3'' \<subseteq> set (nums @ ''.'')"
proof -
  have "map_result facts_of (parse_file dots_files [''bk.pl''])
          = Some (Inr [(''f'', [''..'', ''1.2.3''])])"
    by code_simp
  from map_result_Inr[OF this] obtain res where
    r: "parse_file dots_files [''bk.pl''] = Some (Inr res)"
    and m: "facts_of res = [(''f'', [''..'', ''1.2.3''])]"
    by (elim exE conjE)
  from m obtain p where p: "toklist res = [p]" "attr_list p ''args'' = [''..'', ''1.2.3'']"
    by (auto simp: facts_of_def)
  then have "p \<in> set (toklist res)" by simp
  from parse_file_argument_tokens[OF r this] p r show ?thesis
    by (auto simp: nums_def)
qed

text \<open>
  C3 as stated fails: the file \<open>f(.., 1.2.3).\<close> is accepted, and its argument tokens
  \<open>..\<close> and \<open>1.2.3\<close> are neither numeric literals in the sense of the spec nor
  runs of letters.
\<close>

theorem parse_file_dots_counterexample:
  "map_result facts_of (parse_file dots_files [''bk.pl''])
     = Some (Inr [(''f'', [''..'', ''1.2.3''])])
   \<and> \<not> spec_argument ''..'' \<and> \<not> spec_argument ''1.2.3''"
  by code_simp




text \<open>
  C5. Parsing is all or nothing. For a file that can be read, \<open>parse_file\<close> either
  raises \<open>ParseException\<close> or returns a non-empty sequence of facts whose texts, each
  followed by its period, make up the whole file in order, whitespace aside: the
  parse starts at the first character and nothing of the file is left over. When
  the grammar has recognised facts and text other than whitespace follows the last
  of them, \<open>parse_file\<close> raises \<open>ParseException\<close>: the facts read so far are not
  returned.
\<close>

theorem parse_file_all_or_nothing:
  assumes "fs filename = Some contents"
  shows "(parse_file fs filename = Some (Inl ParseException)
          \<or> (\<exists>res. parse_file fs filename = Some (Inr res) \<and> toklist res \<noteq> []
                \<and> strip_white contents = concat (map (\<lambda>p. to_pred p @ ''.'') (toklist res))))
         \<and> (\<forall>res r. parse_elem prolog contents = Match res r \<and> strip_white r \<noteq> []
               \<longrightarrow> parse_file fs filename = Some (Inl ParseException))"
proof -
  have pf: "parse_file fs filename = parse_string prolog contents True"
    using assms by (simp add: parse_file_def)
  have "parse_file fs filename = Some (Inl ParseException)
          \<or> (\<exists>res. parse_file fs filename = Some (Inr res) \<and> toklist res \<noteq> []
                \<and> strip_white contents = concat (map (\<lambda>p. to_pred p @ ''.'') (toklist res)))"
    using parse_string_prolog_cases[of contents] parse_string_prolog_Inr[of contents] pf
    by auto
  moreover have "parse_file fs filename = Some (Inl ParseException)"
    if "parse_elem prolog contents = Match res r" "strip_white r \<noteq> []" for res r
    using that pf by (simp add: parse_string_def strip_white_Nil_iff)
  ultimately show ?thesis by blast
qed

theorem parse_file_all_or_nothing_witness:
  "[[''bk.pl''] \<mapsto> succ_text] [''bk.pl''] = Some succ_text
   \<and> map_result facts_of (parse_file [[''bk.pl''] \<mapsto> succ_text] [''bk.pl''])
       = Some (Inr [(''succ'', [''0'', ''1'']), (''succ'', [''1'', ''2''])])
   \<and> (\<exists>res. parse_file [[''bk.pl''] \<mapsto> succ_text] [''bk.pl''] = Some (Inr res)
         \<and> strip_white succ_text = concat (map (\<lambda>p. to_pred p @ ''.'') (toklist res)))
   \<and> parse_file [[''bk.pl''] \<mapsto> ''foo(1,2''] [''bk.pl''] = Some (Inl ParseException)
   \<and> parse_file [[''bk.pl''] \<mapsto> ''f(a). g''] [''bk.pl''] = Some (Inl ParseException)"
proof -
  let ?fs = "[[''bk.pl''] \<mapsto> succ_text]"
  have h: "?fs [''bk.pl''] = Some succ_text" by simp
  have ev: "map_result facts_of (parse_file ?fs [''bk.pl''])
       = Some (Inr [(''succ'', [''0'', ''1'']), (''succ'', [''1'', ''2''])])"
    by code_simp
  then have ok: "parse_file ?fs [''bk.pl''] \<noteq> Some (Inl ParseException)"
    by (auto simp: map_result_def bind_result_def)
  have "map_result (\<lambda>_. ()) (parse_file [[''bk.pl''] \<mapsto> ''foo(1,2''] [''bk.pl''])
          = Some (Inl ParseException)"
    by code_simp
  then have f1: "parse_file [[''bk.pl''] \<mapsto> ''foo(1,2''] [''bk.pl''] = Some (Inl ParseException)"
    by (rule map_result_unit_Inl)
  have "map_result (\<lambda>_. ()) (parse_file [[''bk.pl''] \<mapsto> ''f(a). g''] [''bk.pl''])
          = Some (Inl ParseException)"
    by code_simp
  then have f2: "parse_file [[''bk.pl''] \<mapsto> ''f(a). g''] [''bk.pl''] = Some (Inl ParseException)"
    by (rule map_result_unit_Inl)
  from parse_file_all_or_nothing[of ?fs "[''bk.pl'']" succ_text] ok h ev f1 f2
  show ?thesis by blast
qed

text \<open>
  C6. Round trip. Every syntactically valid single fact is accepted and comes back
  from \<open>to_pred\<close> as written. Let \<open>s\<close> be a predicate word of letters, \<open>(\<close>, one or
  more argument tokens separated by commas, \<open>)\<close> and a period, with any whitespace
  before, between and after these tokens, where an argument token is a run of
  digits and points (which covers every numeric literal of the spec) or a run of
  letters. Then \<open>parse_string\<close> returns exactly one fact; its \<open>id\<close> is the predicate
  word and its \<open>args\<close> are the argument tokens, in their order and unchanged
  (\<open>2.0\<close> stays \<open>2.0\<close>); and \<open>to_pred\<close> of it is the word, \<open>(\<close>, the tokens joined by
  commas, and \<open>)\<close>, which is \<open>s\<close> with its whitespace removed and without the final
  period.
\<close>

theorem to_pred_round_trip:
  assumes "variable_token name" and "argument_token arg" and "list_all spaced_arg rest"
    and "white w0" and "white w1" and "white w2" and "white w3" and "white w4" and "white w5"
    and "s = w0 @ sentence_text name w1 w2 arg rest w3 w4 @ w5"
  shows "\<exists>res p. parse_string prolog s True = Some (Inr res) \<and> toklist res = [p]
           \<and> attr_str p ''id'' = name
           \<and> attr_list p ''args'' = arg # map (\<lambda>(w1, w2, a). a) rest
           \<and> to_pred p = name @ ''('' @ join '','' (arg # map (\<lambda>(w1, w2, a). a) rest) @ '')''
           \<and> to_pred p = butlast (strip_white s) \<and> last (strip_white s) = CHR ''.''"
proof -
  from prolog_forward[OF assms(1,4,5,2,6,3,7,8,9)] assms(10) obtain res p where
    r: "parse_string prolog s True = Some (Inr res)" "toklist res = [p]"
    and f: "attr_str p ''id'' = name" "attr_list p ''args'' = arg # map (\<lambda>(w1, w2, a). a) rest"
    by auto
  have "to_pred p = name @ ''('' @ join '','' (arg # map (\<lambda>(w1, w2, a). a) rest) @ '')''"
    by (simp only: to_pred_def f)
  with single_fact_text[OF r] r f show ?thesis by blast
qed

theorem to_pred_round_trip_witness:
  "variable_token ''track'' \<and> argument_token ''a''
   \<and> list_all spaced_arg [([], '' '', ''2.0''), ('' '', [CHR 0x0A], ''bc'')]
   \<and> white '' '' \<and> white [] \<and> white [CHR 0x0A]
   \<and> spaced_track_text
       = '' '' @ sentence_text ''track'' '' '' [] ''a''
           [([], '' '', ''2.0''), ('' '', [CHR 0x0A], ''bc'')] '' '' [] @ [CHR 0x0A]
   \<and> (\<exists>res p. parse_string prolog spaced_track_text True = Some (Inr res) \<and> toklist res = [p]
         \<and> attr_str p ''id'' = ''track'' \<and> attr_list p ''args'' = [''a'', ''2.0'', ''bc'']
         \<and> to_pred p = ''track(a,2.0,bc)''
         \<and> butlast (strip_white spaced_track_text) = ''track(a,2.0,bc)'')"
proof -
  have h: "variable_token ''track''" "argument_token ''a''"
    "list_all spaced_arg [([], '' '', ''2.0''), ('' '', [CHR 0x0A], ''bc'')]"
    "white '' ''" "white []" "white [CHR 0x0A]"
    by code_simp+
  have s: "spaced_track_text
       = '' '' @ sentence_text ''track'' '' '' [] ''a''
           [([], '' '', ''2.0''), ('' '', [CHR 0x0A], ''bc'')] '' '' [] @ [CHR 0x0A]"
    by (simp add: spaced_track_text_def sentence_text_def)
  from to_pred_round_trip[OF h(1,2,3) h(4) h(4) h(5) h(4) h(5) h(6) s]
  obtain res p where "parse_string prolog spaced_track_text True = Some (Inr res)"
    "toklist res = [p]" "attr_str p ''id'' = ''track''"
    "attr_list p ''args'' = [''a'', ''2.0'', ''bc'']"
    "to_pred p = ''track(a,2.0,bc)''" "to_pred p = butlast (strip_white spaced_track_text)"
    by auto
  with h s show ?thesis by auto
qed

text \<open>
  C7. \<open>to_pred_str\<close> of a fact is its predicate word, a slash, and the number of
  its argument tokens in decimal: a non-empty string of digits that denotes that
  number, without a leading zero. It is a function of the fact alone.
\<close>

theorem to_pred_str_format:
  "to_pred_str p = attr_str p ''id'' @ ''/'' @ str_nat (length (attr_list p ''args''))
   \<and> decimal_value (str_nat (length (attr_list p ''args''))) = length (attr_list p ''args'')
   \<and> str_nat (length (attr_list p ''args'')) \<noteq> []
   \<and> list_all (\<lambda>c. c \<in> set nums) (str_nat (length (attr_list p ''args'')))
   \<and> (str_nat (length (attr_list p ''args'')) = ''0''
        \<or> hd (str_nat (length (attr_list p ''args''))) \<in> set ''123456789'')"
  using str_nat_leading[of "length (attr_list p ''args'')"]
    str_nat_digits[of "length (attr_list p ''args'')"]
  by (simp add: to_pred_str_def str_nat_value)

text \<open>
  C8. Whatever the order in which Python iterates over a set,
  \<open>get_all_unique_args\<close> returns a list without duplicates whose elements are
  exactly the argument tokens of the facts given; and for a permutation of the
  facts it returns a list with the same elements.
\<close>

theorem get_all_unique_args_set:
  assumes "\<And>xs. distinct (list_set xs)" and "\<And>xs. set (list_set xs) = set xs"
  shows "distinct (get_all_unique_args list_set results)
         \<and> set (get_all_unique_args list_set results)
             = (\<Union>p \<in> set (toklist results). set (attr_list p ''args''))
         \<and> (mset (toklist results') = mset (toklist results) \<longrightarrow>
               set (get_all_unique_args list_set results')
                 = set (get_all_unique_args list_set results))"
proof -
  have s: "set (get_all_unique_args list_set r)
             = (\<Union>p \<in> set (toklist r). set (attr_list p ''args''))" for r
    by (simp add: get_all_unique_args_concat assms(2))
  have "set (get_all_unique_args list_set results')
          = set (get_all_unique_args list_set results)"
    if "mset (toklist results') = mset (toklist results)"
    using mset_eq_setD[OF that] by (simp add: s)
  then show ?thesis using s[of results] assms(1) by (simp add: get_all_unique_args_def)
qed

theorem get_all_unique_args_set_witness:
  "(\<forall>xs :: string list. distinct (remdups xs)) \<and> (\<forall>xs :: string list. set (remdups xs) = set xs)
   \<and> distinct (get_all_unique_args remdups succ_facts)
   \<and> set (get_all_unique_args remdups succ_facts) = {''0'', ''1'', ''2''}
   \<and> mset (toklist (succ_facts\<lparr>toklist := rev (toklist succ_facts)\<rparr>)) = mset (toklist succ_facts)
   \<and> set (get_all_unique_args remdups (succ_facts\<lparr>toklist := rev (toklist succ_facts)\<rparr>))
       = set (get_all_unique_args remdups succ_facts)"
proof -
  have a: "set (get_all_unique_args remdups succ_facts) = {''0'', ''1'', ''2''}"
    by (auto simp: get_all_unique_args_concat succ_facts_def attr_list_def)
  have m: "mset (toklist (succ_facts\<lparr>toklist := rev (toklist succ_facts)\<rparr>))
             = mset (toklist succ_facts)"
    by simp
  from get_all_unique_args_set[of remdups succ_facts
      "succ_facts\<lparr>toklist := rev (toklist succ_facts)\<rparr>"] a m
  show ?thesis by simp
qed

text \<open>
  C9, as amended. The \<open>ProgramTemplate\<close> of every assembly that returns has the one
  auxiliary predicate \<open>pred/2\<close> and 6 forward chaining steps; its rules are a
  dictionary whose keys are the target signature and \<open>pred/2\<close>, \<open>pred/2\<close> is mapped
  to \<open>(RuleTemplate(1, False), None)\<close>, and a target signature other than \<open>pred/2\<close>
  is mapped to \<open>(RuleTemplate(0, False), RuleTemplate(1, True))\<close>. Nothing else of the
  files enters the template.
\<close>

theorem setup_custom_program_template:
  assumes "setup_custom list_set fs example_path = Some (Inr (ilp, pt))"
  shows "preds_aux pt = [''pred/2''] \<and> forward_chaining_steps pt = 6
         \<and> rules pt ''pred/2'' = Some (RuleTemplate 1 False, None)
         \<and> dom (rules pt) = {target (language_model ilp), ''pred/2''}
         \<and> (target (language_model ilp) \<noteq> ''pred/2'' \<longrightarrow>
               rules pt (target (language_model ilp))
                 = Some (RuleTemplate 0 False, Some (RuleTemplate 1 True)))"
proof -
  from setup_custom_Inr[OF assms] obtain p where
    "target (language_model ilp) = to_pred_str p" "preds_aux pt = [''pred/2'']"
    "forward_chaining_steps pt = 6"
    "rules pt = [to_pred_str p \<mapsto> (RuleTemplate 0 False, Some (RuleTemplate 1 True)),
                 ''pred/2'' \<mapsto> (RuleTemplate 1 False, None)]"
    by (elim exE conjE)
  then show ?thesis by auto
qed

theorem setup_custom_program_template_witness:
  "\<exists>ilp pt. setup_custom remdups even_files [''even''] = Some (Inr (ilp, pt))
     \<and> target (language_model ilp) = ''even/1'' \<and> target (language_model ilp) \<noteq> ''pred/2''
     \<and> preds_aux pt = [''pred/2''] \<and> forward_chaining_steps pt = 6
     \<and> rules pt ''pred/2'' = Some (RuleTemplate 1 False, None)
     \<and> rules pt ''even/1'' = Some (RuleTemplate 0 False, Some (RuleTemplate 1 True))"
proof -
  have "map_result (\<lambda>(ilp, pt). target (language_model ilp))
          (setup_custom remdups even_files [''even'']) = Some (Inr ''even/1'')"
    by code_simp
  from map_result_Inr[OF this] obtain ilp pt where
    r: "setup_custom remdups even_files [''even''] = Some (Inr (ilp, pt))"
    and t: "target (language_model ilp) = ''even/1''"
    by (elim exE conjE) (auto split: prod.splits)
  from setup_custom_program_template[OF r] r t show ?thesis by auto
qed

text \<open>
  C9 as stated fails when the first positive example is a fact of \<open>pred\<close> with two
  arguments: the target signature is then \<open>pred/2\<close> itself, the two keys of the
  dictionary coincide, and the target is mapped to \<open>(RuleTemplate(1, False), None)\<close>.
\<close>

theorem setup_custom_pred_counterexample:
  "map_result (\<lambda>(ilp, pt). (target (language_model ilp), rules pt (target (language_model ilp))))
     (setup_custom remdups pred_files [''pred''])
   = Some (Inr (''pred/2'', Some (RuleTemplate 1 False, None)))"
  by code_simp

end
